theory Spec2Isabelle
  imports Complex_Main "HOL-Library.Multiset" "HOL-Library.Sublist"
begin

section \<open>Numbers of the Go program\<close>

text \<open>
  The detection package computes with Go's \<^verbatim>\<open>int\<close> (64 bits, two's complement) and
  \<^verbatim>\<open>float64\<close>. An \<^verbatim>\<open>int\<close> is modelled as a HOL \<open>int\<close>; where the source adds or
  multiplies values that are not bounded by the length of the batch, the wrap-around of
  the 64-bit result is written out with \<open>wrap64\<close>. Counters that are only incremented
  once per record of the batch cannot exceed the batch length and are left unwrapped.

  A \<^verbatim>\<open>float64\<close> is modelled by the real number it denotes: rounding, infinities and NaN
  are outside the model. Go's division of a \<^verbatim>\<open>float64\<close> by zero yields an infinity or
  NaN where HOL's \<open>x / 0\<close> is \<open>0\<close>, so every theorem below that states the value of a
  quotient assumes its denominator to be nonzero.
\<close>

definition wrap64 :: "int \<Rightarrow> int" where
  "wrap64 x = (x + 2 ^ 63) mod 2 ^ 64 - 2 ^ 63"

text \<open>
  Go's conversion \<^verbatim>\<open>int(x)\<close> of a \<^verbatim>\<open>float64\<close>: the fraction is discarded (truncation
  towards zero). Go leaves the result open for a value outside the range of \<^verbatim>\<open>int\<close>; the
  one conversion of the package is applied to a weighted mean of two \<^verbatim>\<open>int\<close> values,
  which lies between them.
\<close>

definition int_of_float64 :: "real \<Rightarrow> int" where
  "int_of_float64 x = (if 0 \<le> x then \<lfloor>x\<rfloor> else \<lceil>x\<rceil>)"

section \<open>Data model\<close>

text \<open>\<^verbatim>\<open>models.TrafficRequest\<close>; a \<^verbatim>\<open>time.Time\<close> is a number of ticks.\<close>

record TrafficRequest =
  ReqID :: string
  Timestamp :: nat
  SourceIP :: string
  DestIP :: string
  SourcePort :: int
  DestPort :: int
  Protocol :: string
  RequestPath :: string
  UserAgent :: string
  BytesSent :: int
  BytesRecv :: int
  StatusCode :: int
  Duration :: int

text \<open>
  A Go \<^verbatim>\<open>map[string]T\<close> is an association list with distinct keys, in the order in which
  the keys were first stored. The order is an artefact of the model: the program can
  observe a map only through lookups, \<^verbatim>\<open>len\<close> and \<^verbatim>\<open>range\<close>, and the order in which
  \<^verbatim>\<open>range\<close> visits the keys is chosen by the Go runtime (see \<open>nondet\<close> below).
\<close>

type_synonym 'v gomap = "(string \<times> 'v) list"

text \<open>\<^verbatim>\<open>m[k]\<close> on a \<^verbatim>\<open>map[string]int\<close>: the zero value when the key is absent.\<close>

definition lookup0 :: "int gomap \<Rightarrow> string \<Rightarrow> int" where
  "lookup0 m k = (case map_of m k of None \<Rightarrow> 0 | Some v \<Rightarrow> v)"

text \<open>\<^verbatim>\<open>m[k] = v\<close>: replaces the value of a present key, adds an absent one.\<close>

fun store :: "'v gomap \<Rightarrow> string \<Rightarrow> 'v \<Rightarrow> 'v gomap" where
  "store [] k v = [(k, v)]"
| "store ((k', v') # m) k v = (if k' = k then (k, v) # m else (k', v') # store m k v)"

text \<open>\<^verbatim>\<open>m[k]++\<close>\<close>

definition incr :: "int gomap \<Rightarrow> string \<Rightarrow> int gomap" where
  "incr m k = store m k (lookup0 m k + 1)"

record Baseline =
  AverageRequestRate :: real
  AverageUniqueIPs :: int
  AverageIPEntropy :: real
  StandardDeviation :: real
  NormalIPRatio :: real
  AvgConnectionDuration :: real

record Thresholds =
  RequestsPerSecond :: int
  RequestRateZScore :: real
  IPEntropyMin :: real
  ConnectionsPerIP :: int
  SlowConnectionTime :: int
  SYNFloodThreshold :: int
  HTTPFloodThreshold :: int

record Detector =
  baseline :: Baseline
  thresholds :: Thresholds

record TrafficMetrics =
  TotalRequests :: int
  UniqueIPs :: int
  IPCounts :: "int gomap"
  ProtocolCounts :: "int gomap"
  PathCounts :: "int gomap"
  IPEntropy :: real
  PathEntropy :: real
  AvgConnDuration :: real
  RequestsPerIP :: real
  SYNPacketCount :: int

text \<open>
  \<^verbatim>\<open>fmt.Sprintf\<close> is not interpreted: a description is the format string together with
  its arguments.
\<close>

datatype fmt_arg = ArgInt int | ArgFloat real

text \<open>
  \<^verbatim>\<open>models.Attack\<close>. No detector sets \<^verbatim>\<open>EndTime\<close>, \<^verbatim>\<open>TargetIPs\<close> or \<^verbatim>\<open>Metrics\<close>; they keep
  their zero values and the pointer field \<^verbatim>\<open>Metrics\<close> is left out of the record.
\<close>

record Attack =
  ID :: string
  Type :: string
  Severity :: string
  Confidence :: real
  StartTime :: nat
  EndTime :: "nat option"
  SourceIPs :: "string list"
  TargetIPs :: "string list"
  Description :: "string \<times> fmt_arg list"
  Mitigated :: bool

definition NewDetector :: Detector where
  "NewDetector =
     \<lparr> baseline =
         \<lparr> AverageRequestRate = 100, AverageUniqueIPs = 50, AverageIPEntropy = 5.5,
           StandardDeviation = 15, NormalIPRatio = 2, AvgConnectionDuration = 150 \<rparr>,
       thresholds =
         \<lparr> RequestsPerSecond = 500, RequestRateZScore = 3, IPEntropyMin = 3,
           ConnectionsPerIP = 100, SlowConnectionTime = 30000,
           SYNFloodThreshold = 1000, HTTPFloodThreshold = 2000 \<rparr> \<rparr>"

section \<open>The baseline adapter\<close>

definition UpdateBaseline :: "Detector \<Rightarrow> TrafficMetrics \<Rightarrow> Detector" where
  "UpdateBaseline d metrics =
     (let alpha = (0.1 :: real);
          b = baseline d;
          b1 = b\<lparr> AverageRequestRate :=
                   alpha * real_of_int (TotalRequests metrics)
                   + (1 - alpha) * AverageRequestRate b \<rparr>;
          b2 = b1\<lparr> AverageUniqueIPs :=
                   int_of_float64 (alpha * real_of_int (UniqueIPs metrics)
                   + (1 - alpha) * real_of_int (AverageUniqueIPs b1)) \<rparr>;
          b3 = b2\<lparr> AverageIPEntropy :=
                   alpha * IPEntropy metrics + (1 - alpha) * AverageIPEntropy b2 \<rparr>;
          b4 = b3\<lparr> AvgConnectionDuration :=
                   alpha * AvgConnDuration metrics + (1 - alpha) * AvgConnectionDuration b3 \<rparr>
      in d\<lparr> baseline := b4 \<rparr>)"

text \<open>The caller's loop: the adapter applied to \<open>n\<close> windows with the same metrics.\<close>

fun UpdateBaseline_times :: "nat \<Rightarrow> Detector \<Rightarrow> TrafficMetrics \<Rightarrow> Detector" where
  "UpdateBaseline_times 0 d metrics = d"
| "UpdateBaseline_times (Suc n) d metrics =
     UpdateBaseline (UpdateBaseline_times n d metrics) metrics"

section \<open>What the Go runtime chooses\<close>

text \<open>
  Three things a detector reads are not functions of its arguments: the identifier
  returned by \<^verbatim>\<open>uuid.New()\<close>, the clock read by \<^verbatim>\<open>time.Now()\<close>, and the order in which
  a \<^verbatim>\<open>range\<close> loop visits the keys of a map. They are made explicit as a value that
  every detector call receives. The order is a function from the keys of the map (as
  the model stores them) to the sequence in which the loop visits them; the runtime
  visits every key exactly once, which is \<open>fair_order\<close>.
\<close>

record nondet =
  new_uuid :: string
  time_now :: nat
  range_order :: "string list \<Rightarrow> string list"

definition fair_order :: "nondet \<Rightarrow> bool" where
  "fair_order nd = (\<forall>ks. mset (range_order nd ks) = mset ks)"

text \<open>\<^verbatim>\<open>for k := range m\<close> and \<^verbatim>\<open>for k, v := range m\<close>\<close>

definition range_keys :: "nondet \<Rightarrow> 'v gomap \<Rightarrow> string list" where
  "range_keys nd m = range_order nd (map fst m)"

definition range_pairs :: "nondet \<Rightarrow> int gomap \<Rightarrow> (string \<times> int) list" where
  "range_pairs nd m = map (\<lambda>k. (k, lookup0 m k)) (range_keys nd m)"

text \<open>One choice for each of the five detector calls of an analysis.\<close>

record run_env =
  syn_nd :: nondet
  http_nd :: nondet
  slow_nd :: nondet
  udp_nd :: nondet
  rate_nd :: nondet

section \<open>Entropy estimator\<close>

text \<open>
  Both loops of \<^verbatim>\<open>calculateEntropy\<close> range over the map. The model computes the exact
  real sums, which do not depend on the order of the visit (see \<open>calculateEntropy_mset\<close>),
  so the loops run over the association list as it is. The \<^verbatim>\<open>float64\<close> sums of the code
  are taken in the order the runtime chooses and can differ in their last bits between
  two runs on the same map. A property that compares two runs therefore does not use the
  value of this function for the entropies of a run: it takes the two values each run
  computed as given (see \<open>snapshot\<close>).
\<close>

definition calculateEntropy :: "int gomap \<Rightarrow> real" where
  "calculateEntropy counts =
     (let total = fold (\<lambda>(k, count) total. wrap64 (total + count)) counts 0
      in if total = 0 then 0
         else fold (\<lambda>(k, count) entropy.
                 if count > 0
                 then (let p = real_of_int count / real_of_int total
                       in entropy - p * log 2 p)
                 else entropy) counts 0)"

section \<open>Window aggregator\<close>

text \<open>The loop of \<^verbatim>\<open>calculateMetrics\<close>, with the five variables it updates.\<close>

fun metrics_loop ::
  "TrafficRequest list \<Rightarrow> int gomap \<times> int gomap \<times> int gomap \<times> int \<times> int
     \<Rightarrow> int gomap \<times> int gomap \<times> int gomap \<times> int \<times> int" where
  "metrics_loop [] acc = acc"
| "metrics_loop (req # requests) (ipCounts, protocolCounts, pathCounts, totalDuration, synCount) =
     metrics_loop requests
       (incr ipCounts (SourceIP req),
        incr protocolCounts (Protocol req),
        incr pathCounts (RequestPath req),
        wrap64 (totalDuration + Duration req),
        (if Protocol req = ''TCP_SYN'' then synCount + 1 else synCount))"

definition calculateMetrics :: "TrafficRequest list \<Rightarrow> TrafficMetrics" where
  "calculateMetrics requests =
     (case metrics_loop requests ([], [], [], 0, 0) of
        (ipCounts, protocolCounts, pathCounts, totalDuration, synCount) \<Rightarrow>
          (let avgDuration =
                 (if length requests > 0
                  then real_of_int totalDuration / real (length requests) else 0)
           in \<lparr> TotalRequests = int (length requests),
                UniqueIPs = int (length ipCounts),
                IPCounts = ipCounts,
                ProtocolCounts = protocolCounts,
                PathCounts = pathCounts,
                IPEntropy = calculateEntropy ipCounts,
                PathEntropy = calculateEntropy pathCounts,
                AvgConnDuration = avgDuration,
                RequestsPerIP = real (length requests) / real (length ipCounts),
                SYNPacketCount = synCount \<rparr>))"

section \<open>Top-N selection and severity\<close>

definition swap :: "'a list \<Rightarrow> nat \<Rightarrow> nat \<Rightarrow> 'a list" where
  "swap xs i j = xs[i := xs ! j, j := xs ! i]"

text \<open>
  The two loops of the exchange sort in \<^verbatim>\<open>getTopIPs\<close>. The slice keeps its length, so
  the bounds \<^verbatim>\<open>len(ips)\<close> of both loops are those of the slice at loop entry and every
  index read is in range.
\<close>

definition top_inner :: "(string \<times> int) list \<Rightarrow> nat \<Rightarrow> (string \<times> int) list" where
  "top_inner ips i =
     fold (\<lambda>j ips. if snd (ips ! j) > snd (ips ! i) then swap ips i j else ips)
       [i + 1 ..< length ips] ips"

definition top_outer :: "(string \<times> int) list \<Rightarrow> nat \<Rightarrow> (string \<times> int) list" where
  "top_outer ips n = fold (\<lambda>i ips. top_inner ips i) [0 ..< min (length ips) n] ips"

definition getTopIPs :: "nondet \<Rightarrow> int gomap \<Rightarrow> nat \<Rightarrow> string list" where
  "getTopIPs nd ipCounts n =
     (let ips = top_outer (range_pairs nd ipCounts) n;
          limit = (if length ips < n then length ips else n)
      in map (\<lambda>i. fst (ips ! i)) [0 ..< limit])"

definition getSeverity :: "real \<Rightarrow> string" where
  "getSeverity confidence =
     (if confidence \<ge> 0.9 then ''CRITICAL''
      else if confidence \<ge> 0.7 then ''HIGH''
      else if confidence \<ge> 0.5 then ''MEDIUM''
      else ''LOW'')"

section \<open>Pattern detectors\<close>

definition detectSYNFlood ::
  "nondet \<Rightarrow> Detector \<Rightarrow> TrafficRequest list \<Rightarrow> TrafficMetrics \<Rightarrow> Attack option" where
  "detectSYNFlood nd d requests metrics =
     (if SYNPacketCount metrics < SYNFloodThreshold (thresholds d) then None
      else
        (let synIPs = fold (\<lambda>req synIPs.
                        if Protocol req = ''TCP_SYN'' then store synIPs (SourceIP req) True
                        else synIPs) requests ([] :: bool gomap)
         in if SYNPacketCount metrics > SYNFloodThreshold (thresholds d) \<and> length synIPs < 10
            then
              (let sourceIPs = range_keys nd synIPs;
                   confidence =
                     min (real_of_int (SYNPacketCount metrics)
                          / real_of_int (wrap64 (SYNFloodThreshold (thresholds d) * 2))) 1
               in Some \<lparr> ID = new_uuid nd, Type = ''SYN_FLOOD'',
                         Severity = getSeverity confidence, Confidence = confidence,
                         StartTime = time_now nd, EndTime = None,
                         SourceIPs = sourceIPs, TargetIPs = [],
                         Description =
                           (''SYN flood detected: %d SYN packets from %d IPs'',
                            [ArgInt (SYNPacketCount metrics), ArgInt (int (length synIPs))]),
                         Mitigated = False \<rparr>)
            else None))"

definition detectHTTPFlood ::
  "nondet \<Rightarrow> Detector \<Rightarrow> TrafficRequest list \<Rightarrow> TrafficMetrics \<Rightarrow> Attack option" where
  "detectHTTPFlood nd d requests metrics =
     (case fold (\<lambda>req (httpCount, httpIPs).
                   if Protocol req = ''HTTP''
                   then (httpCount + 1, incr httpIPs (SourceIP req))
                   else (httpCount, httpIPs)) requests (0 :: int, [])
      of (httpCount, httpIPs) \<Rightarrow>
        if httpCount < HTTPFloodThreshold (thresholds d) then None
        else if PathEntropy metrics < 2.0
        then
          (let sourceIPs = getTopIPs nd httpIPs 20;
               confidence =
                 min (real_of_int httpCount
                      / real_of_int (wrap64 (HTTPFloodThreshold (thresholds d) * 2))) 1
           in Some \<lparr> ID = new_uuid nd, Type = ''HTTP_FLOOD'',
                     Severity = getSeverity confidence, Confidence = confidence,
                     StartTime = time_now nd, EndTime = None,
                     SourceIPs = sourceIPs, TargetIPs = [],
                     Description =
                       (''HTTP flood detected: %d requests with low path diversity (entropy: %.2f)'',
                        [ArgInt httpCount, ArgFloat (PathEntropy metrics)]),
                     Mitigated = False \<rparr>)
        else None)"

definition detectSlowloris ::
  "nondet \<Rightarrow> Detector \<Rightarrow> TrafficRequest list \<Rightarrow> TrafficMetrics \<Rightarrow> Attack option" where
  "detectSlowloris nd d requests metrics =
     (case fold (\<lambda>req (slowConnections, slowIPs).
                   if Protocol req = ''HTTP'' \<and> Duration req > SlowConnectionTime (thresholds d)
                   then (slowConnections + 1, incr slowIPs (SourceIP req))
                   else (slowConnections, slowIPs)) requests (0 :: int, [])
      of (slowConnections, slowIPs) \<Rightarrow>
        if slowConnections > 100 \<and> length slowIPs < 10
        then
          (let sourceIPs = range_keys nd slowIPs;
               confidence = min (real_of_int slowConnections / 300.0) 1
           in Some \<lparr> ID = new_uuid nd, Type = ''SLOWLORIS'',
                     Severity = getSeverity confidence, Confidence = confidence,
                     StartTime = time_now nd, EndTime = None,
                     SourceIPs = sourceIPs, TargetIPs = [],
                     Description =
                       (''Slowloris detected: %d slow connections from %d IPs'',
                        [ArgInt slowConnections, ArgInt (int (length slowIPs))]),
                     Mitigated = False \<rparr>)
        else None)"

definition detectUDPFlood ::
  "nondet \<Rightarrow> Detector \<Rightarrow> TrafficRequest list \<Rightarrow> TrafficMetrics \<Rightarrow> Attack option" where
  "detectUDPFlood nd d requests metrics =
     (let udpCount = lookup0 (ProtocolCounts metrics) ''UDP''
      in if udpCount < 2000 then None
         else
           (let udpIPs = fold (\<lambda>req udpIPs.
                           if Protocol req = ''UDP'' then incr udpIPs (SourceIP req)
                           else udpIPs) requests [];
                sourceIPs = getTopIPs nd udpIPs 20;
                confidence = min (real_of_int udpCount / 5000.0) 1
            in Some \<lparr> ID = new_uuid nd, Type = ''UDP_FLOOD'',
                      Severity = getSeverity confidence, Confidence = confidence,
                      StartTime = time_now nd, EndTime = None,
                      SourceIPs = sourceIPs, TargetIPs = [],
                      Description =
                        (''UDP flood detected: %d UDP packets from %d IPs'',
                         [ArgInt udpCount, ArgInt (int (length udpIPs))]),
                      Mitigated = False \<rparr>))"

definition detectRateAnomaly :: "nondet \<Rightarrow> Detector \<Rightarrow> TrafficMetrics \<Rightarrow> Attack option" where
  "detectRateAnomaly nd d metrics =
     (let requestRate = real_of_int (TotalRequests metrics);
          zScore = (requestRate - AverageRequestRate (baseline d))
                   / StandardDeviation (baseline d)
      in if zScore > RequestRateZScore (thresholds d)
         then
           (if IPEntropy metrics < IPEntropyMin (thresholds d)
            then
              (let sourceIPs = getTopIPs nd (IPCounts metrics) 20;
                   confidence = min (zScore / 6.0) 1
               in Some \<lparr> ID = new_uuid nd, Type = ''RATE_ANOMALY'',
                         Severity = getSeverity confidence, Confidence = confidence,
                         StartTime = time_now nd, EndTime = None,
                         SourceIPs = sourceIPs, TargetIPs = [],
                         Description =
                           (''Rate anomaly detected: %.0f req/s (Z-score: %.2f), low IP entropy: %.2f'',
                            [ArgFloat requestRate, ArgFloat zScore, ArgFloat (IPEntropy metrics)]),
                         Mitigated = False \<rparr>)
            else None)
         else None)"

section \<open>Analysis entry point\<close>

text \<open>\<^verbatim>\<open>if attack := ...; attack != nil { attacks = append(attacks, *attack) }\<close>\<close>

definition append_found :: "Attack list \<Rightarrow> Attack option \<Rightarrow> Attack list" where
  "append_found attacks attack = (case attack of None \<Rightarrow> attacks | Some a \<Rightarrow> attacks @ [a])"

definition AnalyzeTraffic :: "run_env \<Rightarrow> Detector \<Rightarrow> TrafficRequest list \<Rightarrow> Attack list" where
  "AnalyzeTraffic env d requests =
     (if length requests = 0 then []
      else
        (let attacks = [];
             metrics = calculateMetrics requests;
             attacks = append_found attacks (detectSYNFlood (syn_nd env) d requests metrics);
             attacks = append_found attacks (detectHTTPFlood (http_nd env) d requests metrics);
             attacks = append_found attacks (detectSlowloris (slow_nd env) d requests metrics);
             attacks = append_found attacks (detectUDPFlood (udp_nd env) d requests metrics);
             attacks = append_found attacks (detectRateAnomaly (rate_nd env) d metrics)
         in attacks))"

section \<open>Notions used to state the properties\<close>

text \<open>The records of a batch that carry a protocol tag, the source addresses of a list of
  records, and the number of records a source address has in it.\<close>

definition tagged :: "string \<Rightarrow> TrafficRequest list \<Rightarrow> TrafficRequest list" where
  "tagged tag rs = filter (\<lambda>r. Protocol r = tag) rs"

definition sources :: "TrafficRequest list \<Rightarrow> string set" where
  "sources rs = set (map SourceIP rs)"

definition count_from :: "TrafficRequest list \<Rightarrow> string \<Rightarrow> int" where
  "count_from rs ip = int (length (filter (\<lambda>r. SourceIP r = ip) rs))"

text \<open>The \<open>n\<close> largest per-address record counts of a list of records, largest first.\<close>

definition largest_counts :: "TrafficRequest list \<Rightarrow> nat \<Rightarrow> int list" where
  "largest_counts rs n = take n (rev (sort (map (count_from rs) (remdups (map SourceIP rs)))))"

text \<open>
  Shannon entropy in bits as the specification words it: \<open>H = - \<Sum> p log\<^sub>2 p\<close> over the
  categories with a positive count, \<open>p = count / total\<close>, and \<open>0\<close> for a total of \<open>0\<close>.
\<close>

definition plogp :: "int \<Rightarrow> int \<Rightarrow> real" where
  "plogp tot c = (real_of_int c / real_of_int tot) * log 2 (real_of_int c / real_of_int tot)"

definition shannon_entropy :: "int gomap \<Rightarrow> real" where
  "shannon_entropy counts =
     (let tot = sum_list (map snd counts)
      in if tot = 0 then 0
         else - (\<Sum>(k, c) \<leftarrow> filter (\<lambda>(k, c). c > 0) counts.
                   (real_of_int c / real_of_int tot) * log 2 (real_of_int c / real_of_int tot)))"

text \<open>Confidence within the unit interval, and severity as the step function of it.\<close>

definition well_scored :: "Attack \<Rightarrow> bool" where
  "well_scored a \<longleftrightarrow>
     0 \<le> Confidence a \<and> Confidence a \<le> 1
     \<and> Severity a = (if Confidence a \<ge> 0.9 then ''CRITICAL''
                     else if Confidence a \<ge> 0.7 then ''HIGH''
                     else if Confidence a \<ge> 0.5 then ''MEDIUM''
                     else ''LOW'')"

text \<open>The order in which \<^verbatim>\<open>AnalyzeTraffic\<close> calls the detectors.\<close>

definition detector_sequence :: "string list" where
  "detector_sequence = [''SYN_FLOOD'', ''HTTP_FLOOD'', ''SLOWLORIS'', ''UDP_FLOOD'', ''RATE_ANOMALY'']"

text \<open>
  Two runs of an analysis compared: \<open>stable_part\<close> forgets the three fields of a finding
  that the runtime's choices reach, \<open>same_finding\<close> is what two runs agree on.
\<close>

definition fair_env :: "run_env \<Rightarrow> bool" where
  "fair_env env \<longleftrightarrow> fair_order (syn_nd env) \<and> fair_order (http_nd env) \<and> fair_order (slow_nd env)
     \<and> fair_order (udp_nd env) \<and> fair_order (rate_nd env)"

definition stable_part :: "Attack \<Rightarrow> Attack" where
  "stable_part a = a\<lparr> ID := [], StartTime := 0, SourceIPs := [] \<rparr>"

definition same_finding :: "TrafficRequest list \<Rightarrow> Attack \<Rightarrow> Attack \<Rightarrow> bool" where
  "same_finding rs a b \<longleftrightarrow>
     stable_part a = stable_part b \<and> length (SourceIPs a) = length (SourceIPs b)
     \<and> (Type a = ''SYN_FLOOD'' \<or> Type a = ''SLOWLORIS'' \<longrightarrow> mset (SourceIPs a) = mset (SourceIPs b))
     \<and> (Type a = ''HTTP_FLOOD'' \<longrightarrow>
          map (count_from (tagged ''HTTP'' rs)) (SourceIPs a)
            = map (count_from (tagged ''HTTP'' rs)) (SourceIPs b))
     \<and> (Type a = ''UDP_FLOOD'' \<longrightarrow>
          map (count_from (tagged ''UDP'' rs)) (SourceIPs a)
            = map (count_from (tagged ''UDP'' rs)) (SourceIPs b))
     \<and> (Type a = ''RATE_ANOMALY'' \<longrightarrow>
          map (count_from rs) (SourceIPs a) = map (count_from rs) (SourceIPs b))"

text \<open>
  The metrics of a run on a batch: the counters and tallies are functions of the batch,
  the two entropies are the values this run's \<^verbatim>\<open>float64\<close> sums came to. The five detector
  calls of \<^verbatim>\<open>AnalyzeTraffic\<close> on given metrics are \<open>detector_calls\<close>.
\<close>

definition snapshot :: "TrafficRequest list \<Rightarrow> real \<Rightarrow> real \<Rightarrow> TrafficMetrics" where
  "snapshot rs ip_entropy path_entropy =
     (calculateMetrics rs)\<lparr> IPEntropy := ip_entropy, PathEntropy := path_entropy \<rparr>"

definition detector_calls ::
  "run_env \<Rightarrow> Detector \<Rightarrow> TrafficRequest list \<Rightarrow> TrafficMetrics \<Rightarrow> Attack list" where
  "detector_calls env d requests metrics =
     (let attacks = [];
          attacks = append_found attacks (detectSYNFlood (syn_nd env) d requests metrics);
          attacks = append_found attacks (detectHTTPFlood (http_nd env) d requests metrics);
          attacks = append_found attacks (detectSlowloris (slow_nd env) d requests metrics);
          attacks = append_found attacks (detectUDPFlood (udp_nd env) d requests metrics);
          attacks = append_found attacks (detectRateAnomaly (rate_nd env) d metrics)
      in attacks)"

text \<open>Loop invariants of the exchange sort: the inner loop at index \<open>j\<close>, the outer loop at
  index \<open>i\<close>.\<close>

definition inner_inv :: "(string \<times> int) list \<Rightarrow> nat \<Rightarrow> nat \<Rightarrow> (string \<times> int) list \<Rightarrow> bool" where
  "inner_inv ips i j r \<longleftrightarrow>
     length r = length ips \<and> take i r = take i ips \<and> mset (drop i r) = mset (drop i ips)
     \<and> (\<forall>t. i < t \<and> t < j \<longrightarrow> snd (r ! t) \<le> snd (r ! i))"

definition outer_inv :: "(string \<times> int) list \<Rightarrow> nat \<Rightarrow> (string \<times> int) list \<Rightarrow> bool" where
  "outer_inv ips i r \<longleftrightarrow>
     length r = length ips \<and> mset r = mset ips
     \<and> (\<forall>a b. a < i \<and> a \<le> b \<and> b < length r \<longrightarrow> snd (r ! b) \<le> snd (r ! a))"

section \<open>Concrete inputs\<close>

definition request :: "string \<Rightarrow> string \<Rightarrow> string \<Rightarrow> int \<Rightarrow> TrafficRequest" where
  "request ip proto path dur =
     \<lparr> ReqID = ''r'', Timestamp = 0, SourceIP = ip, DestIP = ''10.0.0.1'', SourcePort = 40000,
       DestPort = 80, Protocol = proto, RequestPath = path, UserAgent = ''agent'',
       BytesSent = 64, BytesRecv = 0, StatusCode = 0, Duration = dur \<rparr>"

text \<open>1500 \<^verbatim>\<open>TCP_SYN\<close> records from three addresses.\<close>

definition syn_batch :: "TrafficRequest list" where
  "syn_batch = replicate 500 (request ''198.51.100.1'' ''TCP_SYN'' [] 0)
             @ replicate 500 (request ''198.51.100.2'' ''TCP_SYN'' [] 0)
             @ replicate 500 (request ''198.51.100.3'' ''TCP_SYN'' [] 0)"

text \<open>A detector with floors small enough for a batch of four records to trigger.\<close>

definition lab_detector :: Detector where
  "lab_detector = NewDetector\<lparr> thresholds :=
      (thresholds NewDetector)\<lparr> SYNFloodThreshold := 1, HTTPFloodThreshold := 2 \<rparr> \<rparr>"

definition lab_batch :: "TrafficRequest list" where
  "lab_batch = [request ''198.51.100.1'' ''TCP_SYN'' ''/'' 0, request ''198.51.100.2'' ''TCP_SYN'' ''/'' 0,
                request ''203.0.113.7'' ''HTTP'' ''/'' 12, request ''203.0.113.8'' ''HTTP'' ''/'' 15]"

text \<open>Two runs: different identifiers, different clock readings, and maps ranged over in
  opposite orders.\<close>

definition runtime_a :: nondet where
  "runtime_a = \<lparr> new_uuid = ''00000000-0000-4000-8000-00000000000a'', time_now = 1, range_order = id \<rparr>"

definition runtime_b :: nondet where
  "runtime_b = \<lparr> new_uuid = ''00000000-0000-4000-8000-00000000000b'', time_now = 2, range_order = rev \<rparr>"

definition env_a :: run_env where
  "env_a = \<lparr> syn_nd = runtime_a, http_nd = runtime_a, slow_nd = runtime_a, udp_nd = runtime_a,
             rate_nd = runtime_a \<rparr>"

definition env_b :: run_env where
  "env_b = \<lparr> syn_nd = runtime_b, http_nd = runtime_b, slow_nd = runtime_b, udp_nd = runtime_b,
             rate_nd = runtime_b \<rparr>"

text \<open>The metrics of a window of 200 records, half from each of two addresses.\<close>

definition window200 :: TrafficMetrics where
  "window200 =
     \<lparr> TotalRequests = 200, UniqueIPs = 2,
       IPCounts = [(''203.0.113.7'', 100), (''203.0.113.8'', 100)],
       ProtocolCounts = [(''HTTP'', 200)], PathCounts = [(''/'', 200)],
       IPEntropy = 1, PathEntropy = 0, AvgConnDuration = 150, RequestsPerIP = 100,
       SYNPacketCount = 0 \<rparr>"

section \<open>Machine integers and maps\<close>

lemma wrap64_id: "- (2 ^ 63) \<le> x \<Longrightarrow> x < 2 ^ 63 \<Longrightarrow> wrap64 x = x"
  by (simp add: wrap64_def)

lemma wrap64_double: "- (2 ^ 62) \<le> x \<Longrightarrow> x < 2 ^ 62 \<Longrightarrow> wrap64 (x * 2) = x * 2"
  by (intro wrap64_id) auto

lemma wrap64_add_left: "wrap64 (wrap64 a + b) = wrap64 (a + b)"
proof -
  have "(wrap64 a + b + 2 ^ 63) mod 2 ^ 64 = (a + b + 2 ^ 63) mod (2 ^ 64 :: int)"
    unfolding wrap64_def by (simp add: mod_simps algebra_simps)
  then show ?thesis unfolding wrap64_def by simp
qed

lemma keys_store: "map fst (store m k v) = (if k \<in> fst ` set m then map fst m else map fst m @ [k])"
  by (induction m) force+

lemma set_keys_store: "fst ` set (store m k v) = insert k (fst ` set m)"
proof -
  have "set (map fst (store m k v)) = insert k (set (map fst m))"
    unfolding keys_store by auto
  then show ?thesis by simp
qed

lemma distinct_store: "distinct (map fst m) \<Longrightarrow> distinct (map fst (store m k v))"
  by (simp add: keys_store)

lemma map_of_store: "map_of (store m k v) = (map_of m)(k \<mapsto> v)"
  by (induction m) auto

lemma lookup0_incr: "lookup0 (incr m k) k' = (if k' = k then lookup0 m k + 1 else lookup0 m k')"
  by (simp add: incr_def lookup0_def map_of_store)

lemma set_keys_incr: "fst ` set (incr m k) = insert k (fst ` set m)"
  by (simp add: incr_def set_keys_store)

lemma distinct_incr: "distinct (map fst m) \<Longrightarrow> distinct (map fst (incr m k))"
  by (simp add: incr_def distinct_store)

lemma lookup0_absent: "k \<notin> fst ` set m \<Longrightarrow> lookup0 m k = 0"
  by (simp add: lookup0_def map_of_eq_None_iff [THEN iffD2])

lemma lookup0_member: "distinct (map fst m) \<Longrightarrow> (k, v) \<in> set m \<Longrightarrow> lookup0 m k = v"
  by (simp add: lookup0_def)

text \<open>The tally of a key over a list of records, and the set of keys marked in a map.\<close>

lemma tally_keys:
  "fst ` set (fold (\<lambda>r m. incr m (f r)) rs m) = fst ` set m \<union> f ` set rs"
  by (induction rs arbitrary: m) (auto simp: set_keys_incr)

lemma tally_distinct:
  "distinct (map fst m) \<Longrightarrow> distinct (map fst (fold (\<lambda>r m. incr m (f r)) rs m))"
  by (induction rs arbitrary: m) (auto simp: distinct_incr)

lemma tally_lookup:
  "lookup0 (fold (\<lambda>r m. incr m (f r)) rs m) k = lookup0 m k + int (length (filter (\<lambda>r. f r = k) rs))"
  by (induction rs arbitrary: m) (auto simp: lookup0_incr)

lemma tally_length:
  assumes "distinct (map fst m)"
  shows "length (fold (\<lambda>r m. incr m (f r)) rs m) = card (fst ` set m \<union> f ` set rs)"
proof -
  have "card (set (map fst (fold (\<lambda>r m. incr m (f r)) rs m)))
      = length (map fst (fold (\<lambda>r m. incr m (f r)) rs m))"
    using tally_distinct [OF assms] by (rule distinct_card)
  then show ?thesis by (simp add: tally_keys)
qed

lemma fold_filter_tally:
  "fold (\<lambda>r m. if P r then incr m (f r) else m) rs m = fold (\<lambda>r m. incr m (f r)) (filter P rs) m"
  by (induction rs arbitrary: m) auto

lemma fold_count_tally:
  "fold (\<lambda>r (c, m). if P r then (c + 1, incr m (f r)) else (c, m)) rs (c0, m0)
     = (c0 + int (length (filter P rs)), fold (\<lambda>r m. incr m (f r)) (filter P rs) m0)"
  by (induction rs arbitrary: c0 m0) auto

lemma marks_keys:
  "fst ` set (fold (\<lambda>r m. if P r then store m (f r) v else m) rs m)
     = fst ` set m \<union> f ` set (filter P rs)"
  by (induction rs arbitrary: m) (auto simp: set_keys_store)

lemma marks_distinct:
  "distinct (map fst m) \<Longrightarrow> distinct (map fst (fold (\<lambda>r m. if P r then store m (f r) v else m) rs m))"
  by (induction rs arbitrary: m) (auto simp: distinct_store)

lemma marks_length:
  "length (fold (\<lambda>r m. if P r then store m (f r) v else m) rs []) = card (f ` set (filter P rs))"
proof -
  let ?m = "fold (\<lambda>r m. if P r then store m (f r) v else m) rs []"
  have "distinct (map fst ?m)" by (intro marks_distinct) simp
  then have "card (set (map fst ?m)) = length (map fst ?m)" by (rule distinct_card)
  then show ?thesis by (simp add: marks_keys)
qed

text \<open>A fair \<^verbatim>\<open>range\<close> visits the entries of a map in some permutation.\<close>

lemma range_keys_mset: "fair_order nd \<Longrightarrow> mset (range_keys nd m) = mset (map fst m)"
  by (simp add: fair_order_def range_keys_def)

lemma range_pairs_mset:
  assumes "fair_order nd" "distinct (map fst m)"
  shows "mset (range_pairs nd m) = mset m"
proof -
  have "mset (range_pairs nd m) = image_mset (\<lambda>k. (k, lookup0 m k)) (mset (range_keys nd m))"
    by (simp add: range_pairs_def)
  also have "\<dots> = image_mset (\<lambda>k. (k, lookup0 m k)) (mset (map fst m))"
    using assms(1) by (simp add: range_keys_mset)
  also have "\<dots> = mset (map (\<lambda>p. (fst p, lookup0 m (fst p))) m)"
    by (simp add: image_mset.compositionality comp_def)
  also have "map (\<lambda>p. (fst p, lookup0 m (fst p))) m = m"
    using assms(2) by (intro map_idI) (auto simp: lookup0_member)
  finally show ?thesis .
qed

lemma range_keys_length: "fair_order nd \<Longrightarrow> length (range_keys nd m) = length m"
  using range_keys_mset [of nd m] by (metis size_mset length_map)

section \<open>Properties of the entropy estimator\<close>

lemma fold_total:
  "fold (\<lambda>(k, count) total. wrap64 (total + count)) m (wrap64 t)
     = wrap64 (t + sum_list (map snd m))"
proof (induction m arbitrary: t)
  case Nil show ?case by simp
next
  case (Cons x m)
  obtain k c where x: "x = (k, c)" by (cases x)
  show ?case using Cons.IH [of "t + c"] by (simp add: x wrap64_add_left add.assoc)
qed

lemma fold_entropy:
  "fold (\<lambda>(k, count) entropy.
           if count > 0
           then (let p = real_of_int count / real_of_int tot in entropy - p * log 2 p)
           else entropy) m e
     = e - (\<Sum>(k, count) \<leftarrow> filter (\<lambda>(k, count). count > 0) m. plogp tot count)"
proof (induction m arbitrary: e)
  case Nil show ?case by simp
next
  case (Cons x m)
  obtain k c where x: "x = (k, c)" by (cases x)
  show ?case by (simp add: x Cons.IH Let_def plogp_def)
qed

lemma calculateEntropy_sum:
  "calculateEntropy m =
     (if wrap64 (sum_list (map snd m)) = 0 then 0
      else - (\<Sum>(k, count) \<leftarrow> filter (\<lambda>(k, count). count > 0) m.
                plogp (wrap64 (sum_list (map snd m))) count))"
proof -
  have "wrap64 0 = 0" by (simp add: wrap64_def)
  then have "fold (\<lambda>(k, count) total. wrap64 (total + count)) m 0 = wrap64 (sum_list (map snd m))"
    using fold_total [of m 0] by simp
  then show ?thesis by (simp add: calculateEntropy_def Let_def fold_entropy)
qed

lemma calculateEntropy_counts:
  "calculateEntropy m =
     (if wrap64 (sum_list (map snd m)) = 0 then 0
      else - (\<Sum>count \<leftarrow> filter (\<lambda>count. count > 0) (map snd m).
                plogp (wrap64 (sum_list (map snd m))) count))"
proof -
  have "(\<Sum>(k, count) \<leftarrow> filter (\<lambda>(k, count). count > 0) m. plogp t count)
      = (\<Sum>count \<leftarrow> filter (\<lambda>count. count > 0) (map snd m). plogp t count)" for t
    by (induction m) auto
  then show ?thesis by (simp add: calculateEntropy_sum)
qed

lemma calculateEntropy_mset:
  assumes "mset (map snd m') = mset (map snd m)"
  shows "calculateEntropy m' = calculateEntropy m"
proof -
  have s: "sum_list (map snd m') = sum_list (map snd m)"
    using assms by (metis sum_mset_sum_list)
  have "mset (filter (\<lambda>count. count > 0) (map snd m')) = mset (filter (\<lambda>count. count > 0) (map snd m))"
    using assms by (metis mset_filter)
  then have "mset (map (plogp t) (filter (\<lambda>count. count > 0) (map snd m')))
      = mset (map (plogp t) (filter (\<lambda>count. count > 0) (map snd m)))" for t
    by (metis mset_map)
  then have "sum_list (map (plogp t) (filter (\<lambda>count. count > 0) (map snd m')))
      = sum_list (map (plogp t) (filter (\<lambda>count. count > 0) (map snd m)))" for t
    by (metis sum_mset_sum_list)
  then show ?thesis by (simp add: calculateEntropy_counts s)
qed

lemma calculateEntropy_uniform:
  assumes "m \<noteq> []" "0 < n" "\<forall>(k, c) \<in> set m. c = n" "int (length m) * n < 2 ^ 63"
  shows "calculateEntropy m = log 2 (real (length m))"
proof -
  have snd: "map snd m = replicate (length m) n"
    using assms(3) by (induction m) auto
  have total: "sum_list (map snd m) = int (length m) * n"
    by (simp add: snd sum_list_replicate)
  have pos: "0 < int (length m) * n" using assms(1,2) by simp
  have w: "wrap64 (sum_list (map snd m)) = int (length m) * n"
    unfolding total using pos assms(4) by (intro wrap64_id) auto
  have f: "filter (\<lambda>count. count > 0) (map snd m) = replicate (length m) n"
    using assms(2) by (simp add: snd)
  have p: "real_of_int n / real_of_int (int (length m) * n) = 1 / real (length m)"
    using assms(2) by simp
  have "plogp (int (length m) * n) n = (1 / real (length m)) * log 2 (1 / real (length m))"
    unfolding plogp_def p ..
  also have "\<dots> = - (1 / real (length m)) * log 2 (real (length m))"
    using assms(1) by (simp add: log_divide)
  finally have pl: "plogp (int (length m) * n) n = - (1 / real (length m)) * log 2 (real (length m))" .
  have "calculateEntropy m = - (real (length m) * plogp (int (length m) * n) n)"
    using pos assms(1,2) by (simp add: calculateEntropy_counts w f sum_list_replicate)
  also have "\<dots> = log 2 (real (length m))"
    using assms(1) by (simp add: pl)
  finally show ?thesis .
qed

lemma calculateEntropy_single:
  assumes "filter (\<lambda>(k, c). c \<noteq> 0) m = [(k0, c0)]" "0 < c0" "c0 < 2 ^ 63"
  shows "calculateEntropy m = 0"
proof -
  have "sum_list (map snd m) = sum_list (map snd (filter (\<lambda>(k, c). c \<noteq> 0) m))"
    by (induction m) auto
  then have total: "sum_list (map snd m) = c0" by (simp add: assms(1))
  have w: "wrap64 (sum_list (map snd m)) = c0"
    unfolding total using assms(2,3) by (intro wrap64_id) auto
  have "filter (\<lambda>(k, c). c > 0) m = filter (\<lambda>(k, c). c > 0) (filter (\<lambda>(k, c). c \<noteq> 0) m)"
    by (induction m) auto
  then have f: "filter (\<lambda>(k, c). c > 0) m = [(k0, c0)]"
    using assms(1,2) by simp
  show ?thesis using assms(2) by (simp add: calculateEntropy_sum w f plogp_def Let_def)
qed

lemma plogp_fun: "(\<lambda>(k, c). plogp t c) = (\<lambda>(k, c). (real_of_int c / real_of_int t) * log 2 (real_of_int c / real_of_int t))"
  by (simp add: plogp_def)

lemma calculateEntropy_shannon:
  assumes "- (2 ^ 63) \<le> sum_list (map snd m)" "sum_list (map snd m) < 2 ^ 63"
  shows "calculateEntropy m = shannon_entropy m"
  using assms by (simp add: calculateEntropy_sum shannon_entropy_def wrap64_id Let_def plogp_fun)

lemma sum_nonneg_counts:
  fixes m :: "int gomap"
  shows "\<forall>(k, c) \<in> set m. 0 \<le> c \<Longrightarrow> 0 \<le> sum_list (map snd m)"
  by (induction m) auto

lemma single_bound:
  fixes m :: "int gomap"
  assumes "\<forall>(k, c) \<in> set m. 0 \<le> c" "filter (\<lambda>(k, c). c \<noteq> 0) m = [(k0, c0)]"
  shows "0 < c0 \<and> sum_list (map snd m) = c0"
proof -
  have "(k0, c0) \<in> set (filter (\<lambda>(k, c). c \<noteq> 0) m)" by (simp add: assms(2))
  then have "(k0, c0) \<in> set m" "c0 \<noteq> 0" by auto
  then have "0 < c0" using assms(1) by fastforce
  moreover have "sum_list (map snd m) = sum_list (map snd (filter (\<lambda>(k, c). c \<noteq> 0) m))"
    by (induction m) auto
  ultimately show ?thesis by (simp add: assms(2))
qed

text \<open>
  Claim C3. For a map of non-negative counts whose total fits Go's \<^verbatim>\<open>int\<close>,
  \<^verbatim>\<open>calculateEntropy\<close> returns the Shannon entropy in bits, \<open>- \<Sum> p log\<^sub>2 p\<close> over the
  categories with a positive count and \<open>p = count / total\<close>; it returns \<open>0\<close> for a total of
  \<open>0\<close>; it returns \<open>0\<close> when a single category carries all the mass; it returns
  \<open>log\<^sub>2 k\<close> for \<open>k\<close> categories of equal positive count (the keys of a map are
  distinct, so \<open>k\<close> is the number of entries); and the result depends on the multiset of
  counts only, hence neither on the order in which the entries are visited nor on which
  key carries which count.
\<close>

theorem calculateEntropy_spec:
  assumes nonneg: "\<forall>(k, c) \<in> set m. 0 \<le> c" and fits: "sum_list (map snd m) < 2 ^ 63"
  shows "calculateEntropy m = shannon_entropy m
     \<and> (sum_list (map snd m) = 0 \<longrightarrow> calculateEntropy m = 0)
     \<and> (\<forall>k0 c0. filter (\<lambda>(k, c). c \<noteq> 0) m = [(k0, c0)] \<longrightarrow> calculateEntropy m = 0)
     \<and> (\<forall>n. m \<noteq> [] \<and> 0 < n \<and> (\<forall>(k, c) \<in> set m. c = n)
            \<longrightarrow> calculateEntropy m = log 2 (real (length m)))
     \<and> (\<forall>m'. mset (map snd m') = mset (map snd m) \<longrightarrow> calculateEntropy m' = calculateEntropy m)"
proof -
  have lo: "- (2 ^ 63) \<le> sum_list (map snd m)"
    using sum_nonneg_counts [OF nonneg] by simp
  have spec: "calculateEntropy m = shannon_entropy m"
    using lo fits by (rule calculateEntropy_shannon)
  have zero: "sum_list (map snd m) = 0 \<longrightarrow> calculateEntropy m = 0"
    by (simp add: spec shannon_entropy_def)
  have single: "\<forall>k0 c0. filter (\<lambda>(k, c). c \<noteq> 0) m = [(k0, c0)] \<longrightarrow> calculateEntropy m = 0"
  proof (intro allI impI)
    fix k0 c0 assume f: "filter (\<lambda>(k, c). c \<noteq> 0) m = [(k0, c0)]"
    from single_bound [OF nonneg f] fits have "0 < c0" "c0 < 2 ^ 63" by simp_all
    with f show "calculateEntropy m = 0" by (rule calculateEntropy_single)
  qed
  have uniform: "\<forall>n. m \<noteq> [] \<and> 0 < n \<and> (\<forall>(k, c) \<in> set m. c = n)
            \<longrightarrow> calculateEntropy m = log 2 (real (length m))"
  proof (intro allI impI)
    fix n assume h: "m \<noteq> [] \<and> 0 < n \<and> (\<forall>(k, c) \<in> set m. c = n)"
    then have "\<forall>(k, c) \<in> set m. c = n" by simp
    then have "map snd m = replicate (length m) n" by (induction m) auto
    then have "sum_list (map snd m) = int (length m) * n" by (simp add: sum_list_replicate)
    with fits have "int (length m) * n < 2 ^ 63" by simp
    with h show "calculateEntropy m = log 2 (real (length m))"
      by (intro calculateEntropy_uniform) auto
  qed
  have perm: "\<forall>m'. mset (map snd m') = mset (map snd m) \<longrightarrow> calculateEntropy m' = calculateEntropy m"
    using calculateEntropy_mset [of _ m] by blast
  show ?thesis
    by (intro conjI) (fact spec, fact zero, fact single, fact uniform, fact perm)
qed

text \<open>Two categories of three records each carry one bit, in either order of the keys; all
  mass on one category, or no mass at all, carries none.\<close>

theorem calculateEntropy_spec_witness:
  "calculateEntropy [(''/login'', 3), (''/search'', 3)] = 1
   \<and> calculateEntropy [(''/search'', 3), (''/login'', 3)] = 1
   \<and> calculateEntropy [(''/login'', 7), (''/search'', 0)] = 0
   \<and> calculateEntropy [(''/login'', 0)] = 0"
proof -
  have a: "calculateEntropy [(''/login'', 3), (''/search'', 3)] = 1"
    and b: "calculateEntropy [(''/search'', 3), (''/login'', 3)] = calculateEntropy [(''/login'', 3), (''/search'', 3)]"
    using calculateEntropy_spec [of "[(''/login'', 3), (''/search'', 3)]"] by auto
  have c: "calculateEntropy [(''/login'', 7), (''/search'', 0)] = 0"
    using calculateEntropy_spec [of "[(''/login'', 7), (''/search'', 0)]"] by simp
  have d: "calculateEntropy [(''/login'', 0)] = 0"
    using calculateEntropy_spec [of "[(''/login'', 0)]"] by simp
  from a b c d show ?thesis by simp
qed

section \<open>Properties of the window aggregator\<close>

lemma metrics_loop_folds:
  "metrics_loop rs (a, b, c, t, s) =
     (fold (\<lambda>r m. incr m (SourceIP r)) rs a,
      fold (\<lambda>r m. incr m (Protocol r)) rs b,
      fold (\<lambda>r m. incr m (RequestPath r)) rs c,
      fold (\<lambda>r t. wrap64 (t + Duration r)) rs t,
      s + int (length (tagged ''TCP_SYN'' rs)))"
  by (induction rs arbitrary: a b c t s) (simp_all add: tagged_def)

lemma calculateMetrics_fields:
  "SYNPacketCount (calculateMetrics rs) = int (length (tagged ''TCP_SYN'' rs))"
  "TotalRequests (calculateMetrics rs) = int (length rs)"
  "IPCounts (calculateMetrics rs) = fold (\<lambda>r m. incr m (SourceIP r)) rs []"
  "ProtocolCounts (calculateMetrics rs) = fold (\<lambda>r m. incr m (Protocol r)) rs []"
  "PathCounts (calculateMetrics rs) = fold (\<lambda>r m. incr m (RequestPath r)) rs []"
  "IPEntropy (calculateMetrics rs) = calculateEntropy (fold (\<lambda>r m. incr m (SourceIP r)) rs [])"
  "PathEntropy (calculateMetrics rs) = calculateEntropy (fold (\<lambda>r m. incr m (RequestPath r)) rs [])"
  by (simp_all add: calculateMetrics_def metrics_loop_folds Let_def)

lemma source_tally:
  "distinct (map fst (fold (\<lambda>r m. incr m (SourceIP r)) rs []))"
  "fst ` set (fold (\<lambda>r m. incr m (SourceIP r)) rs []) = sources rs"
  "length (fold (\<lambda>r m. incr m (SourceIP r)) rs []) = card (sources rs)"
  "lookup0 (fold (\<lambda>r m. incr m (SourceIP r)) rs []) ip = count_from rs ip"
proof -
  have "lookup0 [] ip = 0" by (simp add: lookup0_def)
  then show "lookup0 (fold (\<lambda>r m. incr m (SourceIP r)) rs []) ip = count_from rs ip"
    by (simp add: tally_lookup count_from_def)
qed (simp_all add: tally_distinct tally_keys tally_length sources_def)

section \<open>Properties of the top-N selection\<close>

lemma length_swap [simp]: "length (swap xs i j) = length xs"
  by (simp add: swap_def)

lemma nth_swap:
  "i < length xs \<Longrightarrow> j < length xs \<Longrightarrow> t < length xs \<Longrightarrow>
   swap xs i j ! t = (if t = j then xs ! i else if t = i then xs ! j else xs ! t)"
  by (simp add: swap_def nth_list_update)

lemma take_swap: "i \<le> a \<Longrightarrow> i \<le> b \<Longrightarrow> take i (swap xs a b) = take i xs"
  by (simp add: swap_def)

lemma mset_drop_swap:
  assumes "i \<le> a" "i \<le> b" "a < length xs" "b < length xs"
  shows "mset (drop i (swap xs a b)) = mset (drop i xs)"
proof -
  have "drop i (swap xs a b) = (drop i xs)[a - i := drop i xs ! (b - i), b - i := drop i xs ! (a - i)]"
    using assms by (simp add: swap_def drop_update_swap)
  moreover have "mset ((drop i xs)[a - i := drop i xs ! (b - i), b - i := drop i xs ! (a - i)]) = mset (drop i xs)"
    using assms by (intro mset_swap) auto
  ultimately show ?thesis by simp
qed

lemma inner_loop_inv:
  assumes "i < length ips" "i + 1 \<le> j" "j \<le> length ips"
  shows "inner_inv ips i j
           (fold (\<lambda>j ips. if snd (ips ! j) > snd (ips ! i) then swap ips i j else ips) [i + 1 ..< j] ips)"
  using assms(2,3)
proof (induction j rule: dec_induct)
  case base
  show ?case by (simp add: inner_inv_def)
next
  case (step j)
  let ?f = "\<lambda>j ips. if snd (ips ! j) > snd (ips ! i) then swap ips i j else ips"
  let ?r = "fold ?f [i + 1 ..< j] ips"
  from step have inv: "inner_inv ips i j ?r" and j: "j < length ips" "i < j" by auto
  then have len: "length ?r = length ips" by (simp add: inner_inv_def)
  have unfold: "fold ?f [i + 1 ..< Suc j] ips = ?f j ?r"
    using step.hyps by simp
  show ?case
  proof (cases "snd (?r ! j) > snd (?r ! i)")
    case False
    then have "?f j ?r = ?r" by simp
    moreover have "inner_inv ips i (Suc j) ?r"
      using inv False by (auto simp: inner_inv_def less_Suc_eq)
    ultimately show ?thesis unfolding unfold by simp
  next
    case True
    then have eq: "?f j ?r = swap ?r i j" by simp
    have "inner_inv ips i (Suc j) (swap ?r i j)"
      unfolding inner_inv_def
    proof (intro conjI allI impI)
      show "length (swap ?r i j) = length ips" using len by simp
      show "take i (swap ?r i j) = take i ips"
        using inv j by (simp add: take_swap inner_inv_def)
      show "mset (drop i (swap ?r i j)) = mset (drop i ips)"
        using inv j assms(1) len by (simp add: mset_drop_swap inner_inv_def)
      fix t assume t: "i < t \<and> t < Suc j"
      then show "snd (swap ?r i j ! t) \<le> snd (swap ?r i j ! i)"
        using inv j assms(1) len True by (auto simp: nth_swap inner_inv_def less_Suc_eq)
    qed
    then show ?thesis unfolding unfold eq .
  qed
qed

lemma top_inner_inv:
  assumes "i < length ips"
  shows "inner_inv ips i (length ips) (top_inner ips i)"
  unfolding top_inner_def using assms by (intro inner_loop_inv) auto

lemma outer_step:
  assumes inv: "outer_inv ips i r" and i: "i < length ips"
  shows "outer_inv ips (Suc i) (top_inner r i)"
proof -
  let ?r' = "top_inner r i"
  have len: "length r = length ips" and ms: "mset r = mset ips"
    using inv by (auto simp: outer_inv_def)
  have ii: "inner_inv r i (length r) ?r'" using i len by (intro top_inner_inv) simp
  then have len': "length ?r' = length r" and tk: "take i ?r' = take i r"
    and dr: "mset (drop i ?r') = mset (drop i r)"
    and mx: "\<And>t. i < t \<Longrightarrow> t < length r \<Longrightarrow> snd (?r' ! t) \<le> snd (?r' ! i)"
    by (auto simp: inner_inv_def)
  have "mset ?r' = mset (take i ?r') + mset (drop i ?r')"
    by (metis append_take_drop_id mset_append)
  also have "\<dots> = mset (take i r) + mset (drop i r)" by (simp add: tk dr)
  also have "\<dots> = mset r" by (metis append_take_drop_id mset_append)
  finally have ms': "mset ?r' = mset ips" using ms by simp
  have low: "?r' ! a = r ! a" if "a < i" for a
    using that by (metis nth_take tk)
  have high: "\<exists>b' \<ge> i. b' < length r \<and> ?r' ! b = r ! b'" if "i \<le> b" "b < length r" for b
  proof -
    have "?r' ! b = drop i ?r' ! (b - i)" using that len' by simp
    also have "\<dots> \<in> set (drop i ?r')" using that len' by (intro nth_mem) simp
    also have "set (drop i ?r') = set (drop i r)" using dr by (metis set_mset_mset)
    finally obtain c where "c < length (drop i r)" "drop i r ! c = ?r' ! b"
      by (metis in_set_conv_nth)
    then show ?thesis by (intro exI [of _ "i + c"]) (auto simp: )
  qed
  have "snd (?r' ! b) \<le> snd (?r' ! a)" if ab: "a < Suc i" "a \<le> b" "b < length ?r'" for a b
  proof (cases "a < i")
    case True
    show ?thesis
    proof (cases "b < i")
      case True
      with \<open>a < i\<close> ab inv len' show ?thesis by (simp add: low outer_inv_def)
    next
      case False
      then obtain b' where "b' \<ge> i" "b' < length r" "?r' ! b = r ! b'"
        using high [of b] ab len' by auto
      with True inv show ?thesis by (simp add: low outer_inv_def)
    qed
  next
    case False
    then have "a = i" using ab by simp
    then show ?thesis using mx [of b] ab len' by (cases "b = i") auto
  qed
  then show ?thesis using len' len ms' by (simp add: outer_inv_def)
qed

lemma outer_loop_inv:
  assumes "k \<le> length ips"
  shows "outer_inv ips k (fold (\<lambda>i ips. top_inner ips i) [0 ..< k] ips)"
  using assms
proof (induction k)
  case 0 show ?case by (simp add: outer_inv_def)
next
  case (Suc k)
  then have "outer_inv ips k (fold (\<lambda>i ips. top_inner ips i) [0 ..< k] ips)" by simp
  then have "outer_inv ips (Suc k) (top_inner (fold (\<lambda>i ips. top_inner ips i) [0 ..< k] ips) k)"
    using Suc.prems by (intro outer_step) auto
  then show ?case by simp
qed

lemma top_outer_inv: "outer_inv ips (min (length ips) n) (top_outer ips n)"
  unfolding top_outer_def by (intro outer_loop_inv) simp

lemma getTopIPs_take:
  "getTopIPs nd m n = map fst (take n (top_outer (range_pairs nd m) n))"
proof -
  let ?r = "top_outer (range_pairs nd m) n"
  have "map (\<lambda>i. fst (?r ! i)) [0 ..< l] = map fst (take l ?r)" if "l \<le> length ?r" for l
    using that by (simp add: list_eq_iff_nth_eq)
  then show ?thesis by (simp add: getTopIPs_def Let_def)
qed

lemma getTopIPs_props:
  assumes fair: "fair_order nd" and dist: "distinct (map fst m)"
  shows "length (getTopIPs nd m n) = min n (length m)"
    and "distinct (getTopIPs nd m n)"
    and "set (getTopIPs nd m n) \<subseteq> fst ` set m"
    and "sorted_wrt (\<lambda>x y. lookup0 m x \<ge> lookup0 m y) (getTopIPs nd m n)"
    and "\<forall>x \<in> fst ` set m - set (getTopIPs nd m n). \<forall>y \<in> set (getTopIPs nd m n).
           lookup0 m x \<le> lookup0 m y"
proof -
  let ?ips = "range_pairs nd m"
  let ?r = "top_outer ?ips n"
  have inv: "outer_inv ?ips (min (length ?ips) n) ?r" by (rule top_outer_inv)
  have ms: "mset ?r = mset m"
    using inv range_pairs_mset [OF fair dist] by (simp add: outer_inv_def)
  then have len: "length ?r = length m" by (metis size_mset)
  have leni: "length ?ips = length m" using range_pairs_mset [OF fair dist] by (metis size_mset)
  have "mset (map fst ?r) = mset (map fst m)" using ms by (metis mset_map)
  then have dk: "distinct (map fst ?r)" and sk: "fst ` set ?r = fst ` set m"
    using dist mset_eq_imp_distinct_iff [of "map fst ?r" "map fst m"] mset_eq_setD [of "map fst ?r" "map fst m"]
    by simp_all
  have val: "lookup0 m (fst (?r ! t)) = snd (?r ! t)" if "t < length m" for t
  proof -
    have "?r ! t \<in> set m" using that len ms by (metis nth_mem set_mset_mset)
    then have "(fst (?r ! t), snd (?r ! t)) \<in> set m" by simp
    then show ?thesis using dist by (rule lookup0_member [rotated])
  qed
  have ord: "snd (?r ! b) \<le> snd (?r ! a)" if "a < min (length m) n" "a \<le> b" "b < length m" for a b
    using inv that len leni by (simp add: outer_inv_def)
  show "length (getTopIPs nd m n) = min n (length m)"
    by (simp add: getTopIPs_take len min.commute)
  show "distinct (getTopIPs nd m n)"
    unfolding getTopIPs_take using dk by (simp add: take_map [symmetric] distinct_take)
  show "set (getTopIPs nd m n) \<subseteq> fst ` set m"
    unfolding getTopIPs_take sk [symmetric] by (auto dest: in_set_takeD)
  show "sorted_wrt (\<lambda>x y. lookup0 m x \<ge> lookup0 m y) (getTopIPs nd m n)"
    unfolding getTopIPs_take sorted_wrt_iff_nth_less
    using len by (auto simp: val ord)
  show "\<forall>x \<in> fst ` set m - set (getTopIPs nd m n). \<forall>y \<in> set (getTopIPs nd m n).
           lookup0 m x \<le> lookup0 m y"
  proof (intro ballI)
    fix x y
    assume x: "x \<in> fst ` set m - set (getTopIPs nd m n)" and y: "y \<in> set (getTopIPs nd m n)"
    from y obtain a where a: "a < min n (length m)" "y = fst (?r ! a)"
      unfolding getTopIPs_take using len by (auto simp: in_set_conv_nth)
    from x have "x \<in> fst ` set ?r" using sk by simp
    then obtain b where b: "b < length m" "x = fst (?r ! b)"
      using len by (auto simp: in_set_conv_nth)
    have "\<not> b < min n (length m)"
    proof
      assume "b < min n (length m)"
      then have "take n ?r ! b = ?r ! b" "b < length (take n ?r)"
        using len by simp_all
      then have "?r ! b \<in> set (take n ?r)" by (metis nth_mem)
      then have "fst (?r ! b) \<in> set (map fst (take n ?r))" by simp
      with x b show False by (simp add: getTopIPs_take)
    qed
    then have "a \<le> b" using a(1) b(1) by simp
    then have "snd (?r ! b) \<le> snd (?r ! a)" using ord [of a b] a b by (simp add: min.commute)
    then show "lookup0 m x \<le> lookup0 m y" using a b by (simp add: val)
  qed
qed

lemma getTopIPs_length:
  assumes "fair_order nd"
  shows "length (getTopIPs nd m n) = min n (length m)"
proof -
  have "length (range_keys nd m) = length (map fst m)"
    using range_keys_mset [OF assms] by (metis size_mset)
  then have "length (range_pairs nd m) = length m" by (simp add: range_pairs_def)
  moreover have "length (top_outer (range_pairs nd m) n) = length (range_pairs nd m)"
    using top_outer_inv [of "range_pairs nd m" n] by (simp add: outer_inv_def)
  ultimately show ?thesis by (simp add: getTopIPs_take min.commute)
qed

lemma outer_inv_counts:
  assumes inv: "outer_inv ips k r" and k: "k \<le> length ips"
  shows "take k (map snd r) = take k (rev (sort (map snd ips)))"
proof -
  let ?c = "map snd r"
  let ?xs = "take k ?c" and ?ys = "drop k ?c"
  let ?zs = "?xs @ rev (sort ?ys)"
  have len: "length ?c = length ips" and ms: "mset ?c = mset (map snd ips)"
    using inv by (simp_all add: outer_inv_def)
  have ord: "?c ! b \<le> ?c ! a" if "a < k" "a \<le> b" "b < length ips" for a b
    using inv that by (simp add: outer_inv_def)
  have sx: "sorted_wrt (\<ge>) ?xs"
    unfolding sorted_wrt_iff_nth_less using ord k len by simp
  have cross: "y \<le> x" if "x \<in> set ?xs" "y \<in> set ?ys" for x y
  proof -
    from that(1) obtain a where a: "a < k" "a < length ?c" "x = ?c ! a"
      unfolding in_set_conv_nth by auto
    from that(2) obtain b where b: "b < length ?c - k" "y = ?c ! (k + b)"
      unfolding in_set_conv_nth by auto
    show ?thesis using ord [of a "k + b"] a b len by simp
  qed
  have "sorted_wrt (\<ge>) (rev (sort ?ys))" by (simp add: sorted_wrt_rev)
  with sx cross have "sorted_wrt (\<ge>) ?zs" by (auto simp: sorted_wrt_append)
  then have "sorted (rev ?zs)" by (simp only: sorted_wrt_rev)
  moreover have "mset (rev ?zs) = mset (map snd ips)"
  proof -
    have "mset (rev ?zs) = mset ?xs + mset ?ys" by simp
    also have "\<dots> = mset ?c" by (metis append_take_drop_id mset_append)
    finally show ?thesis using ms by simp
  qed
  ultimately have "sort (map snd ips) = rev ?zs" by (intro properties_for_sort)
  then have "rev (sort (map snd ips)) = ?zs" by simp
  moreover have "take k ?zs = ?xs" using k len by simp
  ultimately show ?thesis by simp
qed

lemma take_min_length: "take (min (length xs) n) xs = take n xs"
  by (cases "n \<le> length xs") (simp_all add: min_def)

lemma sort_cong_mset: "mset xs = mset ys \<Longrightarrow> sort xs = sort ys"
  by (metis sorted_list_of_multiset_mset)

lemma getTopIPs_counts:
  assumes fair: "fair_order nd" and dist: "distinct (map fst m)"
  shows "map (lookup0 m) (getTopIPs nd m n) = take n (rev (sort (map snd m)))"
proof -
  let ?ips = "range_pairs nd m"
  let ?r = "top_outer ?ips n"
  let ?k = "min (length ?ips) n"
  have inv: "outer_inv ?ips ?k ?r" by (rule top_outer_inv)
  have pm: "mset ?ips = mset m" by (rule range_pairs_mset [OF fair dist])
  have ms: "mset ?r = mset m" using inv pm by (simp add: outer_inv_def)
  have len: "length ?r = length ?ips" using inv by (simp add: outer_inv_def)
  have val: "lookup0 m (fst x) = snd x" if "x \<in> set ?r" for x
  proof -
    have "(fst x, snd x) \<in> set m" using that ms by (metis prod.collapse set_mset_mset)
    then show ?thesis using dist by (rule lookup0_member [rotated])
  qed
  have "map (lookup0 m) (getTopIPs nd m n) = map snd (take n ?r)"
  proof -
    have "lookup0 m (fst x) = snd x" if "x \<in> set (take n ?r)" for x
      using that by (intro val) (rule in_set_takeD)
    then have "map (\<lambda>x. lookup0 m (fst x)) (take n ?r) = map snd (take n ?r)"
      by (intro map_cong) simp_all
    then show ?thesis unfolding getTopIPs_take by (simp add: comp_def)
  qed
  also have "\<dots> = take ?k (map snd ?r)"
    using take_min_length [of "map snd ?r" n] len by (simp add: take_map)
  also have "\<dots> = take ?k (rev (sort (map snd ?ips)))"
    using inv by (rule outer_inv_counts) simp
  also have "sort (map snd ?ips) = sort (map snd m)"
    using pm by (intro sort_cong_mset) (metis mset_map)
  also have "take ?k (rev (sort (map snd m))) = take n (rev (sort (map snd m)))"
  proof -
    have "length ?ips = length (rev (sort (map snd m)))" using pm by (metis length_map length_rev length_sort size_mset)
    then show ?thesis by (simp only: take_min_length)
  qed
  finally show ?thesis .
qed

lemma tally_counts:
  "sort (map snd (fold (\<lambda>r m. incr m (SourceIP r)) rs []))
     = sort (map (count_from rs) (remdups (map SourceIP rs)))"
proof -
  let ?m = "fold (\<lambda>r m. incr m (SourceIP r)) rs []"
  have "map snd ?m = map (lookup0 ?m) (map fst ?m)"
    using source_tally(1) [of rs] by (auto simp: lookup0_member)
  also have "\<dots> = map (count_from rs) (map fst ?m)" by (simp add: source_tally(4))
  finally have "map snd ?m = map (count_from rs) (map fst ?m)" .
  then have "mset (map snd ?m) = mset (map (count_from rs) (map fst ?m))" by (rule arg_cong)
  then have "mset (map snd ?m) = image_mset (count_from rs) (mset (map fst ?m))" by (simp only: mset_map)
  moreover have "mset (map fst ?m) = mset (remdups (map SourceIP rs))"
    using source_tally(1,2) [of rs]
    by (intro set_eq_iff_mset_eq_distinct [THEN iffD1]) (auto simp: sources_def)
  ultimately have "mset (map snd ?m) = mset (map (count_from rs) (remdups (map SourceIP rs)))"
    by simp
  then show ?thesis by (rule sort_cong_mset)
qed

lemma getTopIPs_tally:
  assumes "fair_order nd"
  shows "map (count_from rs) (getTopIPs nd (fold (\<lambda>r m. incr m (SourceIP r)) rs []) n)
           = largest_counts rs n"
  using getTopIPs_counts [OF assms source_tally(1), of rs n]
  by (simp add: source_tally(4) [abs_def] tally_counts largest_counts_def)

section \<open>Properties of the detectors\<close>

lemma synIPs_length:
  "length (fold (\<lambda>req synIPs. if Protocol req = ''TCP_SYN'' then store synIPs (SourceIP req) True
                               else synIPs) rs ([] :: bool gomap))
     = card (sources (tagged ''TCP_SYN'' rs))"
  by (simp only: marks_length sources_def tagged_def set_map)

lemma detectSYNFlood_char:
  "detectSYNFlood nd d rs (calculateMetrics rs) \<noteq> None \<longleftrightarrow>
     int (length (tagged ''TCP_SYN'' rs)) > SYNFloodThreshold (thresholds d)
     \<and> card (sources (tagged ''TCP_SYN'' rs)) < 10"
  "detectSYNFlood nd d rs (calculateMetrics rs) = Some a \<Longrightarrow>
     Type a = ''SYN_FLOOD''
     \<and> Confidence a = min (real_of_int (int (length (tagged ''TCP_SYN'' rs)))
                          / real_of_int (wrap64 (SYNFloodThreshold (thresholds d) * 2))) 1
     \<and> Severity a = getSeverity (Confidence a)"
  by (auto simp: detectSYNFlood_def Let_def synIPs_length calculateMetrics_fields split: if_splits)

lemma syn_batch_facts:
  "length (tagged ''TCP_SYN'' syn_batch) = 1500"
  "card (sources (tagged ''TCP_SYN'' syn_batch)) = 3"
  by (simp_all add: syn_batch_def tagged_def sources_def request_def)

text \<open>
  Claim C1, amended. Let the SYN floor be nonzero and its double fit Go's \<^verbatim>\<open>int\<close>. For the
  metrics of the batch itself, the SYN-flood detector emits a finding when the number of
  \<^verbatim>\<open>TCP_SYN\<close> records is above the floor and these records come from fewer than 10
  distinct source addresses; it emits none when the number is below the floor or the
  addresses are 10 or more. An emitted finding has confidence
  \<open>min (synCount / (2 \<times> floor)) 1\<close> and the severity that \<^verbatim>\<open>getSeverity\<close> gives this confidence.
  With floor 1000, 1500 \<^verbatim>\<open>TCP_SYN\<close> records from 3 distinct addresses trigger with
  confidence 0.75 and severity HIGH. (The count equal to the floor is not part of the
  statement.)
\<close>

theorem detectSYNFlood_spec:
  assumes "SYNFloodThreshold (thresholds d) \<noteq> 0"
    and "- (2 ^ 62) \<le> SYNFloodThreshold (thresholds d)" "SYNFloodThreshold (thresholds d) < 2 ^ 62"
  shows
    "(int (length (tagged ''TCP_SYN'' rs)) > SYNFloodThreshold (thresholds d)
        \<and> card (sources (tagged ''TCP_SYN'' rs)) < 10
        \<longrightarrow> (\<exists>a. detectSYNFlood nd d rs (calculateMetrics rs) = Some a))
     \<and> (int (length (tagged ''TCP_SYN'' rs)) < SYNFloodThreshold (thresholds d)
          \<or> 10 \<le> card (sources (tagged ''TCP_SYN'' rs))
        \<longrightarrow> detectSYNFlood nd d rs (calculateMetrics rs) = None)
     \<and> (\<forall>a. detectSYNFlood nd d rs (calculateMetrics rs) = Some a \<longrightarrow>
           Confidence a = min (real_of_int (int (length (tagged ''TCP_SYN'' rs)))
                               / (2 * real_of_int (SYNFloodThreshold (thresholds d)))) 1
           \<and> Severity a = getSeverity (Confidence a))
     \<and> (SYNFloodThreshold (thresholds d) = 1000 \<and> length (tagged ''TCP_SYN'' rs) = 1500
          \<and> card (sources (tagged ''TCP_SYN'' rs)) = 3
        \<longrightarrow> (\<exists>a. detectSYNFlood nd d rs (calculateMetrics rs) = Some a
                 \<and> Confidence a = 0.75 \<and> Severity a = ''HIGH''))"
proof -
  let ?det = "detectSYNFlood nd d rs (calculateMetrics rs)"
  have w: "real_of_int (wrap64 (SYNFloodThreshold (thresholds d) * 2))
             = 2 * real_of_int (SYNFloodThreshold (thresholds d))"
    using assms(2,3) by (simp add: wrap64_double)
  have emits: "int (length (tagged ''TCP_SYN'' rs)) > SYNFloodThreshold (thresholds d)
        \<and> card (sources (tagged ''TCP_SYN'' rs)) < 10 \<longrightarrow> (\<exists>a. ?det = Some a)"
    using detectSYNFlood_char(1) [of nd d rs] by auto
  have silent: "int (length (tagged ''TCP_SYN'' rs)) < SYNFloodThreshold (thresholds d)
          \<or> 10 \<le> card (sources (tagged ''TCP_SYN'' rs)) \<longrightarrow> ?det = None"
    using detectSYNFlood_char(1) [of nd d rs] by auto
  have conf: "\<forall>a. ?det = Some a \<longrightarrow>
           Confidence a = min (real_of_int (int (length (tagged ''TCP_SYN'' rs)))
                               / (2 * real_of_int (SYNFloodThreshold (thresholds d)))) 1
           \<and> Severity a = getSeverity (Confidence a)"
    using detectSYNFlood_char(2) [of nd d rs] by (simp add: w)
  have example: "SYNFloodThreshold (thresholds d) = 1000 \<and> length (tagged ''TCP_SYN'' rs) = 1500
          \<and> card (sources (tagged ''TCP_SYN'' rs)) = 3
        \<longrightarrow> (\<exists>a. ?det = Some a \<and> Confidence a = 0.75 \<and> Severity a = ''HIGH'')"
  proof
    assume h: "SYNFloodThreshold (thresholds d) = 1000 \<and> length (tagged ''TCP_SYN'' rs) = 1500
          \<and> card (sources (tagged ''TCP_SYN'' rs)) = 3"
    then obtain a where a: "?det = Some a" using emits by auto
    then have "Confidence a = 0.75" using conf h by simp
    moreover have "Severity a = getSeverity (Confidence a)" using conf a by simp
    ultimately have "Confidence a = 0.75 \<and> Severity a = ''HIGH''" by (simp add: getSeverity_def)
    then show "\<exists>a. ?det = Some a \<and> Confidence a = 0.75 \<and> Severity a = ''HIGH''" using a by simp
  qed
  from emits silent conf example show ?thesis by blast
qed

text \<open>The batch of 1500 \<^verbatim>\<open>TCP_SYN\<close> records from three addresses, under the default
  thresholds.\<close>

theorem detectSYNFlood_spec_witness:
  "SYNFloodThreshold (thresholds NewDetector) \<noteq> 0
   \<and> - (2 ^ 62) \<le> SYNFloodThreshold (thresholds NewDetector)
   \<and> SYNFloodThreshold (thresholds NewDetector) < 2 ^ 62
   \<and> SYNFloodThreshold (thresholds NewDetector) = 1000 \<and> length (tagged ''TCP_SYN'' syn_batch) = 1500
   \<and> card (sources (tagged ''TCP_SYN'' syn_batch)) = 3
   \<and> (\<exists>a. detectSYNFlood runtime_a NewDetector syn_batch (calculateMetrics syn_batch) = Some a
          \<and> Confidence a = 0.75 \<and> Severity a = ''HIGH'')"
  using detectSYNFlood_spec [of NewDetector syn_batch runtime_a] syn_batch_facts
  by (simp add: NewDetector_def)

text \<open>Claim C1 as stated fails on that batch: the finding has confidence 0.75, which
  \<^verbatim>\<open>getSeverity\<close> maps to HIGH, not to MEDIUM.\<close>

theorem detectSYNFlood_medium_counterexample:
  "\<exists>a. detectSYNFlood runtime_a NewDetector syn_batch (calculateMetrics syn_batch) = Some a
        \<and> Confidence a = 0.75 \<and> Severity a = ''HIGH'' \<and> Severity a \<noteq> ''MEDIUM''"
proof -
  have "detectSYNFlood runtime_a NewDetector syn_batch (calculateMetrics syn_batch) \<noteq> None"
    unfolding detectSYNFlood_char(1) by (simp add: syn_batch_facts NewDetector_def)
  then obtain a where
    a: "detectSYNFlood runtime_a NewDetector syn_batch (calculateMetrics syn_batch) = Some a"
    by blast
  have w: "wrap64 (SYNFloodThreshold (thresholds NewDetector) * 2) = 2000"
    by (simp add: NewDetector_def wrap64_def)
  from detectSYNFlood_char(2) [OF a] have "Confidence a = 0.75"
    and "Severity a = getSeverity (Confidence a)"
    by (simp_all add: syn_batch_facts w)
  then have "Confidence a = 0.75 \<and> Severity a = ''HIGH'' \<and> Severity a \<noteq> ''MEDIUM''"
    by (simp add: getSeverity_def)
  with a show ?thesis by blast
qed

text \<open>At a count equal to the floor the early return lets the batch pass, and the second
  test, which is strict, drops it: 1500 records against a floor of 1500 give no finding.\<close>

lemma detectSYNFlood_at_floor:
  "detectSYNFlood runtime_a (NewDetector\<lparr> thresholds := (thresholds NewDetector)\<lparr> SYNFloodThreshold := 1500 \<rparr> \<rparr>)
     syn_batch (calculateMetrics syn_batch) = None"
  using detectSYNFlood_char(1) [of runtime_a "NewDetector\<lparr> thresholds := (thresholds NewDetector)\<lparr> SYNFloodThreshold := 1500 \<rparr> \<rparr>" syn_batch]
  by (simp add: syn_batch_facts)

lemma http_loop:
  "fold (\<lambda>req (httpCount, httpIPs).
           if Protocol req = ''HTTP'' then (httpCount + 1, incr httpIPs (SourceIP req))
           else (httpCount, httpIPs)) rs (0 :: int, [])
   = (int (length (tagged ''HTTP'' rs)), fold (\<lambda>r m. incr m (SourceIP r)) (tagged ''HTTP'' rs) [])"
  using fold_count_tally [of "\<lambda>r. Protocol r = ''HTTP''" SourceIP rs 0 "[]"]
  by (simp add: tagged_def)

lemma detectHTTPFlood_char:
  "detectHTTPFlood nd d rs m =
     (if int (length (tagged ''HTTP'' rs)) \<ge> HTTPFloodThreshold (thresholds d) \<and> PathEntropy m < 2
      then Some \<lparr> ID = new_uuid nd, Type = ''HTTP_FLOOD'',
             Severity = getSeverity (min (real_of_int (int (length (tagged ''HTTP'' rs)))
                      / real_of_int (wrap64 (HTTPFloodThreshold (thresholds d) * 2))) 1),
             Confidence = min (real_of_int (int (length (tagged ''HTTP'' rs)))
                      / real_of_int (wrap64 (HTTPFloodThreshold (thresholds d) * 2))) 1,
             StartTime = time_now nd, EndTime = None,
             SourceIPs = getTopIPs nd (fold (\<lambda>r m. incr m (SourceIP r)) (tagged ''HTTP'' rs) []) 20,
             TargetIPs = [],
             Description =
               (''HTTP flood detected: %d requests with low path diversity (entropy: %.2f)'',
                [ArgInt (int (length (tagged ''HTTP'' rs))), ArgFloat (PathEntropy m)]),
             Mitigated = False \<rparr>
      else None)"
  by (simp add: detectHTTPFlood_def http_loop Let_def)

lemmas lab_eval = AnalyzeTraffic_def calculateMetrics_def lab_detector_def lab_batch_def NewDetector_def
  request_def detectSYNFlood_def detectHTTPFlood_def detectSlowloris_def detectUDPFlood_def
  detectRateAnomaly_def append_found_def incr_def lookup0_def calculateEntropy_def wrap64_def
  getTopIPs_def top_outer_def top_inner_def swap_def range_pairs_def range_keys_def getSeverity_def
  Let_def upt_rec

lemma run_a: "AnalyzeTraffic env_a lab_detector lab_batch =
  [\<lparr> ID = ''00000000-0000-4000-8000-00000000000a'', Type = ''SYN_FLOOD'', Severity = ''CRITICAL'',
     Confidence = 1, StartTime = 1, EndTime = None,
     SourceIPs = [''198.51.100.1'', ''198.51.100.2''], TargetIPs = [],
     Description = (''SYN flood detected: %d SYN packets from %d IPs'', [ArgInt 2, ArgInt 2]),
     Mitigated = False \<rparr>,
   \<lparr> ID = ''00000000-0000-4000-8000-00000000000a'', Type = ''HTTP_FLOOD'', Severity = ''MEDIUM'',
     Confidence = 1 / 2, StartTime = 1, EndTime = None,
     SourceIPs = [''203.0.113.7'', ''203.0.113.8''], TargetIPs = [],
     Description = (''HTTP flood detected: %d requests with low path diversity (entropy: %.2f)'',
                    [ArgInt 2, ArgFloat 0]),
     Mitigated = False \<rparr>]"
  by (simp add: lab_eval env_a_def runtime_a_def)

lemma run_b: "AnalyzeTraffic env_b lab_detector lab_batch =
  [\<lparr> ID = ''00000000-0000-4000-8000-00000000000b'', Type = ''SYN_FLOOD'', Severity = ''CRITICAL'',
     Confidence = 1, StartTime = 2, EndTime = None,
     SourceIPs = [''198.51.100.2'', ''198.51.100.1''], TargetIPs = [],
     Description = (''SYN flood detected: %d SYN packets from %d IPs'', [ArgInt 2, ArgInt 2]),
     Mitigated = False \<rparr>,
   \<lparr> ID = ''00000000-0000-4000-8000-00000000000b'', Type = ''HTTP_FLOOD'', Severity = ''MEDIUM'',
     Confidence = 1 / 2, StartTime = 2, EndTime = None,
     SourceIPs = [''203.0.113.8'', ''203.0.113.7''], TargetIPs = [],
     Description = (''HTTP flood detected: %d requests with low path diversity (entropy: %.2f)'',
                    [ArgInt 2, ArgFloat 0]),
     Mitigated = False \<rparr>]"
  by (simp add: lab_eval env_b_def runtime_b_def)

lemma lab_http:
  "length (tagged ''HTTP'' lab_batch) = 2"
  "sources (tagged ''HTTP'' lab_batch) = {''203.0.113.7'', ''203.0.113.8''}"
  "PathEntropy (calculateMetrics lab_batch) = 0"
  by (simp_all add: tagged_def sources_def lab_batch_def request_def calculateMetrics_fields
      incr_def lookup0_def calculateEntropy_def wrap64_def)

text \<open>
  Claim C4. Let the HTTP floor be nonzero and its double fit Go's \<^verbatim>\<open>int\<close>, and let the
  \<^verbatim>\<open>range\<close> over the tally visit every address once. The HTTP-flood detector emits a
  finding exactly when the number of \<^verbatim>\<open>HTTP\<close> records is at least the floor and the path
  entropy of the metrics is below 2.0 bits. An emitted finding has confidence
  \<open>min (httpCount / (2 \<times> floor)) 1\<close>, and its source list holds the top 20 source addresses
  of the \<^verbatim>\<open>HTTP\<close> records by record count: \<open>min 20 k\<close> distinct addresses out of the \<open>k\<close>
  that sent such records (all of them when \<open>k < 20\<close>), in descending order of count, no
  address left out has a higher count than a listed one, and the counts of the listed
  addresses are the 20 largest counts.
\<close>

theorem detectHTTPFlood_spec:
  assumes "fair_order nd" and "HTTPFloodThreshold (thresholds d) \<noteq> 0"
    and "- (2 ^ 62) \<le> HTTPFloodThreshold (thresholds d)" "HTTPFloodThreshold (thresholds d) < 2 ^ 62"
  shows
    "((\<exists>a. detectHTTPFlood nd d rs m = Some a) \<longleftrightarrow>
        int (length (tagged ''HTTP'' rs)) \<ge> HTTPFloodThreshold (thresholds d) \<and> PathEntropy m < 2)
     \<and> (\<forall>a. detectHTTPFlood nd d rs m = Some a \<longrightarrow>
           Confidence a = min (real_of_int (int (length (tagged ''HTTP'' rs)))
                               / (2 * real_of_int (HTTPFloodThreshold (thresholds d)))) 1
           \<and> length (SourceIPs a) = min 20 (card (sources (tagged ''HTTP'' rs)))
           \<and> distinct (SourceIPs a)
           \<and> set (SourceIPs a) \<subseteq> sources (tagged ''HTTP'' rs)
           \<and> sorted_wrt (\<lambda>x y. count_from (tagged ''HTTP'' rs) x \<ge> count_from (tagged ''HTTP'' rs) y)
               (SourceIPs a)
           \<and> (\<forall>x \<in> sources (tagged ''HTTP'' rs) - set (SourceIPs a). \<forall>y \<in> set (SourceIPs a).
                 count_from (tagged ''HTTP'' rs) x \<le> count_from (tagged ''HTTP'' rs) y)
           \<and> map (count_from (tagged ''HTTP'' rs)) (SourceIPs a) = largest_counts (tagged ''HTTP'' rs) 20)"
proof -
  let ?m = "fold (\<lambda>r m. incr m (SourceIP r)) (tagged ''HTTP'' rs) []"
  have w: "real_of_int (wrap64 (HTTPFloodThreshold (thresholds d) * 2))
             = 2 * real_of_int (HTTPFloodThreshold (thresholds d))"
    using assms(3,4) by (simp add: wrap64_double)
  note top = getTopIPs_props [OF assms(1) source_tally(1), of "tagged ''HTTP'' rs" 20,
      unfolded source_tally set_map]
  have trig: "(\<exists>a. detectHTTPFlood nd d rs m = Some a) \<longleftrightarrow>
        int (length (tagged ''HTTP'' rs)) \<ge> HTTPFloodThreshold (thresholds d) \<and> PathEntropy m < 2"
    by (simp add: detectHTTPFlood_char)
  have "Confidence a = min (real_of_int (int (length (tagged ''HTTP'' rs)))
                               / (2 * real_of_int (HTTPFloodThreshold (thresholds d)))) 1
           \<and> length (SourceIPs a) = min 20 (card (sources (tagged ''HTTP'' rs)))
           \<and> distinct (SourceIPs a)
           \<and> set (SourceIPs a) \<subseteq> sources (tagged ''HTTP'' rs)
           \<and> sorted_wrt (\<lambda>x y. count_from (tagged ''HTTP'' rs) x \<ge> count_from (tagged ''HTTP'' rs) y)
               (SourceIPs a)
           \<and> (\<forall>x \<in> sources (tagged ''HTTP'' rs) - set (SourceIPs a). \<forall>y \<in> set (SourceIPs a).
                 count_from (tagged ''HTTP'' rs) x \<le> count_from (tagged ''HTTP'' rs) y)
           \<and> map (count_from (tagged ''HTTP'' rs)) (SourceIPs a) = largest_counts (tagged ''HTTP'' rs) 20"
    if a: "detectHTTPFlood nd d rs m = Some a" for a
  proof -
    from a have src: "SourceIPs a = getTopIPs nd ?m 20"
      and c: "Confidence a = min (real_of_int (int (length (tagged ''HTTP'' rs)))
                      / real_of_int (wrap64 (HTTPFloodThreshold (thresholds d) * 2))) 1"
      by (auto simp: detectHTTPFlood_char split: if_splits)
    show ?thesis
      unfolding src using top c w getTopIPs_tally [OF assms(1), of "tagged ''HTTP'' rs" 20] by simp
  qed
  with trig show ?thesis by blast
qed

text \<open>Two \<^verbatim>\<open>HTTP\<close> records on one path against a floor of 2, with the tally ranged over
  backwards.\<close>

theorem detectHTTPFlood_spec_witness:
  "fair_order runtime_b \<and> HTTPFloodThreshold (thresholds lab_detector) \<noteq> 0
   \<and> - (2 ^ 62) \<le> HTTPFloodThreshold (thresholds lab_detector)
   \<and> HTTPFloodThreshold (thresholds lab_detector) < 2 ^ 62
   \<and> (\<exists>a. detectHTTPFlood runtime_b lab_detector lab_batch (calculateMetrics lab_batch) = Some a
          \<and> Confidence a = 1 / 2 \<and> length (SourceIPs a) = 2
          \<and> set (SourceIPs a) = {''203.0.113.7'', ''203.0.113.8''})"
proof -
  have fair: "fair_order runtime_b" by (simp add: fair_order_def runtime_b_def)
  have th: "HTTPFloodThreshold (thresholds lab_detector) = 2"
    by (simp add: lab_detector_def NewDetector_def)
  note spec = detectHTTPFlood_spec [of runtime_b lab_detector lab_batch "calculateMetrics lab_batch",
      OF fair, unfolded th lab_http]
  from spec obtain a where a: "detectHTTPFlood runtime_b lab_detector lab_batch (calculateMetrics lab_batch) = Some a"
    by auto
  with spec have "Confidence a = 1 / 2" "length (SourceIPs a) = 2" "distinct (SourceIPs a)"
    "set (SourceIPs a) \<subseteq> {''203.0.113.7'', ''203.0.113.8''}" by auto
  moreover from this have "set (SourceIPs a) = {''203.0.113.7'', ''203.0.113.8''}"
    by (intro card_seteq) (auto simp: distinct_card)
  ultimately show ?thesis using fair th a by simp
qed

text \<open>
  Claim C5. Let the baseline's standard deviation be nonzero. With
  \<open>z = (total - average request rate) / standard deviation\<close>, the rate-anomaly detector
  emits a finding exactly when \<open>z\<close> exceeds the z-score threshold and the source entropy
  of the metrics is below the entropy floor; the finding has confidence \<open>min (z / 6) 1\<close>
  and the severity of that confidence. With average 100, deviation 15, threshold 3 and
  entropy floor 3, a window of 200 records triggers with confidence 1 and severity
  CRITICAL when its source entropy is 1, and does not trigger when it is 6.
\<close>

theorem detectRateAnomaly_spec:
  assumes "StandardDeviation (baseline d) \<noteq> 0"
  shows "(let z = (real_of_int (TotalRequests m) - AverageRequestRate (baseline d))
                  / StandardDeviation (baseline d)
          in ((\<exists>a. detectRateAnomaly nd d m = Some a)
                \<longleftrightarrow> z > RequestRateZScore (thresholds d) \<and> IPEntropy m < IPEntropyMin (thresholds d))
             \<and> (\<forall>a. detectRateAnomaly nd d m = Some a \<longrightarrow>
                    Type a = ''RATE_ANOMALY'' \<and> Confidence a = min (z / 6.0) 1
                    \<and> Severity a = getSeverity (Confidence a)))
       \<and> (AverageRequestRate (baseline d) = 100 \<and> StandardDeviation (baseline d) = 15
          \<and> RequestRateZScore (thresholds d) = 3 \<and> IPEntropyMin (thresholds d) = 3
          \<and> TotalRequests m = 200 \<longrightarrow>
            (IPEntropy m = 1 \<longrightarrow>
               (\<exists>a. detectRateAnomaly nd d m = Some a \<and> Confidence a = 1 \<and> Severity a = ''CRITICAL''))
          \<and> (IPEntropy m = 6 \<longrightarrow> detectRateAnomaly nd d m = None))"
proof -
  have general: "(let z = (real_of_int (TotalRequests m) - AverageRequestRate (baseline d))
                  / StandardDeviation (baseline d)
          in ((\<exists>a. detectRateAnomaly nd d m = Some a)
                \<longleftrightarrow> z > RequestRateZScore (thresholds d) \<and> IPEntropy m < IPEntropyMin (thresholds d))
             \<and> (\<forall>a. detectRateAnomaly nd d m = Some a \<longrightarrow>
                    Type a = ''RATE_ANOMALY'' \<and> Confidence a = min (z / 6.0) 1
                    \<and> Severity a = getSeverity (Confidence a)))"
    by (auto simp: detectRateAnomaly_def Let_def)
  have example: "AverageRequestRate (baseline d) = 100 \<and> StandardDeviation (baseline d) = 15
          \<and> RequestRateZScore (thresholds d) = 3 \<and> IPEntropyMin (thresholds d) = 3
          \<and> TotalRequests m = 200 \<longrightarrow>
            (IPEntropy m = 1 \<longrightarrow>
               (\<exists>a. detectRateAnomaly nd d m = Some a \<and> Confidence a = 1 \<and> Severity a = ''CRITICAL''))
          \<and> (IPEntropy m = 6 \<longrightarrow> detectRateAnomaly nd d m = None)"
    by (simp add: detectRateAnomaly_def Let_def getSeverity_def)
  from general example show ?thesis by blast
qed

text \<open>The default detector on the window of 200 records.\<close>

theorem detectRateAnomaly_spec_witness:
  "StandardDeviation (baseline NewDetector) \<noteq> 0
   \<and> (\<exists>a. detectRateAnomaly runtime_a NewDetector window200 = Some a \<and> Confidence a = 1 \<and> Severity a = ''CRITICAL'')
   \<and> detectRateAnomaly runtime_a NewDetector (window200\<lparr> IPEntropy := 6 \<rparr>) = None"
  using detectRateAnomaly_spec [of NewDetector window200 runtime_a]
    detectRateAnomaly_spec [of NewDetector "window200\<lparr> IPEntropy := 6 \<rparr>" runtime_a]
  by (simp add: NewDetector_def window200_def)

section \<open>Confidence and severity\<close>

lemma detectSYNFlood_conf:
  assumes "0 < SYNFloodThreshold (thresholds d)" "SYNFloodThreshold (thresholds d) < 2 ^ 62"
    and "detectSYNFlood nd d rs m = Some a"
  shows "0 \<le> Confidence a \<and> Confidence a \<le> 1 \<and> Severity a = getSeverity (Confidence a)"
proof -
  have w: "wrap64 (SYNFloodThreshold (thresholds d) * 2) = SYNFloodThreshold (thresholds d) * 2"
    using assms(1,2) by (intro wrap64_id) auto
  show ?thesis using assms by (auto simp: detectSYNFlood_def Let_def w split: if_splits)
qed

lemma detectHTTPFlood_conf:
  assumes "0 < HTTPFloodThreshold (thresholds d)" "HTTPFloodThreshold (thresholds d) < 2 ^ 62"
    and "detectHTTPFlood nd d rs m = Some a"
  shows "0 \<le> Confidence a \<and> Confidence a \<le> 1 \<and> Severity a = getSeverity (Confidence a)"
proof -
  have w: "wrap64 (HTTPFloodThreshold (thresholds d) * 2) = HTTPFloodThreshold (thresholds d) * 2"
    using assms(1,2) by (intro wrap64_id) auto
  show ?thesis using assms by (auto simp: detectHTTPFlood_def Let_def w split: if_splits prod.splits)
qed

lemma detectSlowloris_conf:
  assumes "detectSlowloris nd d rs m = Some a"
  shows "0 \<le> Confidence a \<and> Confidence a \<le> 1 \<and> Severity a = getSeverity (Confidence a)"
  using assms by (auto simp: detectSlowloris_def Let_def split: if_splits prod.splits)

lemma detectUDPFlood_conf:
  assumes "detectUDPFlood nd d rs m = Some a"
  shows "0 \<le> Confidence a \<and> Confidence a \<le> 1 \<and> Severity a = getSeverity (Confidence a)"
  using assms by (auto simp: detectUDPFlood_def Let_def split: if_splits prod.splits)

lemma detectRateAnomaly_conf:
  assumes "0 \<le> RequestRateZScore (thresholds d)" "detectRateAnomaly nd d m = Some a"
  shows "0 \<le> Confidence a \<and> Confidence a \<le> 1 \<and> Severity a = getSeverity (Confidence a)"
  using assms by (auto simp: detectRateAnomaly_def Let_def split: if_splits prod.splits)

lemma AnalyzeTraffic_members:
  "a \<in> set (AnalyzeTraffic env d rs) \<Longrightarrow>
     detectSYNFlood (syn_nd env) d rs (calculateMetrics rs) = Some a
   \<or> detectHTTPFlood (http_nd env) d rs (calculateMetrics rs) = Some a
   \<or> detectSlowloris (slow_nd env) d rs (calculateMetrics rs) = Some a
   \<or> detectUDPFlood (udp_nd env) d rs (calculateMetrics rs) = Some a
   \<or> detectRateAnomaly (rate_nd env) d (calculateMetrics rs) = Some a"
  by (auto simp: AnalyzeTraffic_def Let_def append_found_def split: if_splits option.splits)

lemma well_scored_iff:
  "well_scored a \<longleftrightarrow> 0 \<le> Confidence a \<and> Confidence a \<le> 1 \<and> Severity a = getSeverity (Confidence a)"
  by (simp add: well_scored_def getSeverity_def)

text \<open>
  Claim C6. Let the SYN and HTTP floors be positive with doubles that fit Go's \<^verbatim>\<open>int\<close>,
  the z-score threshold non-negative and the standard deviation nonzero, as they are in
  every detector the program builds (\<^verbatim>\<open>NewDetector\<close> sets floors 1000 and 2000, threshold
  3 and deviation 15, and no code writes them). Then every finding that one of the five
  detectors emits, on any batch and any metrics however large the counts, and every
  finding that \<^verbatim>\<open>AnalyzeTraffic\<close> returns, has a confidence in \<open>[0, 1]\<close> and the severity
  CRITICAL from 0.9, HIGH from 0.7, MEDIUM from 0.5 and LOW below.
\<close>

theorem confidence_severity_bounds:
  assumes "0 < SYNFloodThreshold (thresholds d)" "SYNFloodThreshold (thresholds d) < 2 ^ 62"
    and "0 < HTTPFloodThreshold (thresholds d)" "HTTPFloodThreshold (thresholds d) < 2 ^ 62"
    and "0 \<le> RequestRateZScore (thresholds d)" "StandardDeviation (baseline d) \<noteq> 0"
  shows "(\<forall>a. (detectSYNFlood nd d rs m = Some a \<or> detectHTTPFlood nd d rs m = Some a
               \<or> detectSlowloris nd d rs m = Some a \<or> detectUDPFlood nd d rs m = Some a
               \<or> detectRateAnomaly nd d m = Some a) \<longrightarrow> well_scored a)
       \<and> (\<forall>a \<in> set (AnalyzeTraffic env d rs). well_scored a)"
proof -
  have each: "well_scored a"
    if "detectSYNFlood n1 d rs m = Some a \<or> detectHTTPFlood n2 d rs m = Some a
        \<or> detectSlowloris n3 d rs m = Some a \<or> detectUDPFlood n4 d rs m = Some a
        \<or> detectRateAnomaly n5 d m = Some a" for a n1 n2 n3 n4 n5 m
    unfolding well_scored_iff using that
    by (elim disjE) (erule detectSYNFlood_conf [OF assms(1,2)] detectHTTPFlood_conf [OF assms(3,4)]
      detectSlowloris_conf detectUDPFlood_conf detectRateAnomaly_conf [OF assms(5)])+
  have "well_scored a" if "a \<in> set (AnalyzeTraffic env d rs)" for a
    using AnalyzeTraffic_members [OF that] by (intro each [where m = "calculateMetrics rs"])
  with each show ?thesis by blast
qed

text \<open>The thresholds of \<^verbatim>\<open>NewDetector\<close> meet the hypotheses, and the finding for the batch of
  1500 \<^verbatim>\<open>TCP_SYN\<close> records is scored so; so are the two findings of the small batch.\<close>

theorem confidence_severity_bounds_witness:
  "0 < SYNFloodThreshold (thresholds NewDetector) \<and> SYNFloodThreshold (thresholds NewDetector) < 2 ^ 62
   \<and> 0 < HTTPFloodThreshold (thresholds NewDetector) \<and> HTTPFloodThreshold (thresholds NewDetector) < 2 ^ 62
   \<and> 0 \<le> RequestRateZScore (thresholds NewDetector) \<and> StandardDeviation (baseline NewDetector) \<noteq> 0
   \<and> (\<exists>a. detectSYNFlood runtime_a NewDetector syn_batch (calculateMetrics syn_batch) = Some a
          \<and> well_scored a)
   \<and> list_all well_scored (AnalyzeTraffic env_a NewDetector syn_batch)
   \<and> length (AnalyzeTraffic env_a lab_detector lab_batch) = 2
   \<and> list_all well_scored (AnalyzeTraffic env_a lab_detector lab_batch)"
proof -
  have n: "0 < SYNFloodThreshold (thresholds NewDetector)" "SYNFloodThreshold (thresholds NewDetector) < 2 ^ 62"
    "0 < HTTPFloodThreshold (thresholds NewDetector)" "HTTPFloodThreshold (thresholds NewDetector) < 2 ^ 62"
    "0 \<le> RequestRateZScore (thresholds NewDetector)" "StandardDeviation (baseline NewDetector) \<noteq> 0"
    by (simp_all add: NewDetector_def)
  have h: "0 < SYNFloodThreshold (thresholds lab_detector)" "SYNFloodThreshold (thresholds lab_detector) < 2 ^ 62"
    "0 < HTTPFloodThreshold (thresholds lab_detector)" "HTTPFloodThreshold (thresholds lab_detector) < 2 ^ 62"
    "0 \<le> RequestRateZScore (thresholds lab_detector)" "StandardDeviation (baseline lab_detector) \<noteq> 0"
    by (simp_all add: lab_detector_def NewDetector_def)
  have "detectSYNFlood runtime_a NewDetector syn_batch (calculateMetrics syn_batch) \<noteq> None"
    unfolding detectSYNFlood_char(1) by (simp add: syn_batch_facts NewDetector_def)
  then obtain a where
    a: "detectSYNFlood runtime_a NewDetector syn_batch (calculateMetrics syn_batch) = Some a"
    by blast
  from confidence_severity_bounds [OF n, where nd = runtime_a and rs = syn_batch
      and m = "calculateMetrics syn_batch" and env = env_a] a
  have syn: "\<exists>a. detectSYNFlood runtime_a NewDetector syn_batch (calculateMetrics syn_batch) = Some a
          \<and> well_scored a"
    and all: "list_all well_scored (AnalyzeTraffic env_a NewDetector syn_batch)"
    by (simp_all add: list_all_iff)
  from confidence_severity_bounds [OF h, where env = env_a and rs = lab_batch]
  have lab: "list_all well_scored (AnalyzeTraffic env_a lab_detector lab_batch)"
    by (simp add: list_all_iff)
  have len: "length (AnalyzeTraffic env_a lab_detector lab_batch) = 2" by (simp add: run_a)
  show ?thesis
    by (intro conjI) (fact n syn all len lab)+
qed

section \<open>Properties of the baseline adapter\<close>

lemma UpdateBaseline_fields:
  "UpdateBaseline d m = d\<lparr> baseline := (baseline d)
      \<lparr> AverageRequestRate :=
          0.1 * real_of_int (TotalRequests m) + (1 - 0.1) * AverageRequestRate (baseline d),
        AverageUniqueIPs :=
          int_of_float64 (0.1 * real_of_int (UniqueIPs m)
                          + (1 - 0.1) * real_of_int (AverageUniqueIPs (baseline d))),
        AverageIPEntropy := 0.1 * IPEntropy m + (1 - 0.1) * AverageIPEntropy (baseline d),
        AvgConnectionDuration :=
          0.1 * AvgConnDuration m + (1 - 0.1) * AvgConnectionDuration (baseline d) \<rparr> \<rparr>"
  by (simp add: UpdateBaseline_def Let_def)

text \<open>A sequence that moves a tenth of the way to \<open>v\<close> at every step.\<close>

lemma ema_closed_form:
  fixes x :: "nat \<Rightarrow> real"
  assumes "\<And>n. x (Suc n) = 0.1 * v + (1 - 0.1) * x n"
  shows "x n - v = 0.9 ^ n * (x 0 - v)"
proof (induction n)
  case 0
  show ?case by simp
next
  case (Suc n)
  have "x (Suc n) - v = 0.9 * (x n - v)"
    by (simp add: assms algebra_simps)
  then show ?case using Suc.IH by simp
qed

lemma ema_limit:
  fixes x :: "nat \<Rightarrow> real"
  assumes "\<And>n. x (Suc n) = 0.1 * v + (1 - 0.1) * x n"
  shows "x \<longlonglongrightarrow> v"
proof -
  have "(\<lambda>n. (0.9 :: real) ^ n) \<longlonglongrightarrow> 0"
    by (rule LIMSEQ_realpow_zero) simp_all
  then have "(\<lambda>n. 0.9 ^ n * (x 0 - v)) \<longlonglongrightarrow> 0"
    by (rule tendsto_mult_left_zero)
  moreover have "(\<lambda>n. x n - v) = (\<lambda>n. 0.9 ^ n * (x 0 - v))"
    by (rule ext) (rule ema_closed_form [of x v, OF assms])
  ultimately have "(\<lambda>n. x n - v) \<longlonglongrightarrow> 0"
    by (rule ssubst [where P = "\<lambda>f. f \<longlonglongrightarrow> 0", rotated])
  then show ?thesis by (simp add: LIM_zero_iff)
qed

text \<open>
  Claim C8. \<^verbatim>\<open>UpdateBaseline\<close> leaves the baseline's standard deviation unchanged, and
  with it the normal-address ratio and the thresholds: the new detector state is the old
  one with at most the four averaged fields of the baseline replaced.
\<close>

theorem UpdateBaseline_frame:
  "StandardDeviation (baseline (UpdateBaseline d m)) = StandardDeviation (baseline d)
   \<and> NormalIPRatio (baseline (UpdateBaseline d m)) = NormalIPRatio (baseline d)
   \<and> thresholds (UpdateBaseline d m) = thresholds d
   \<and> UpdateBaseline d m = d\<lparr> baseline := (baseline d)
      \<lparr> AverageRequestRate := AverageRequestRate (baseline (UpdateBaseline d m)),
        AverageUniqueIPs := AverageUniqueIPs (baseline (UpdateBaseline d m)),
        AverageIPEntropy := AverageIPEntropy (baseline (UpdateBaseline d m)),
        AvgConnectionDuration := AvgConnectionDuration (baseline (UpdateBaseline d m)) \<rparr> \<rparr>"
  by (simp add: UpdateBaseline_fields)

text \<open>
  Claim C7, amended. With \<open>\<alpha> = 0.1\<close>, \<^verbatim>\<open>UpdateBaseline\<close> sets the average request rate
  (from the window's total record count), the average source entropy and the average
  connection duration to \<open>\<alpha> \<times> current + (1 - \<alpha>) \<times> old\<close>, each from its own old value; the
  average unique-source count, which is an integer field, is set to that value with its
  fraction discarded. From an average request rate of 100, one window with a total of
  200 gives 110. Under repeated identical windows the distance of each of the three
  real-valued averages to the window's value shrinks by the factor 0.9 per window, so
  they converge to the window's value.
\<close>

theorem UpdateBaseline_ema:
  "AverageRequestRate (baseline (UpdateBaseline d m))
     = 0.1 * real_of_int (TotalRequests m) + (1 - 0.1) * AverageRequestRate (baseline d)
   \<and> AverageUniqueIPs (baseline (UpdateBaseline d m))
     = int_of_float64 (0.1 * real_of_int (UniqueIPs m)
                       + (1 - 0.1) * real_of_int (AverageUniqueIPs (baseline d)))
   \<and> AverageIPEntropy (baseline (UpdateBaseline d m))
     = 0.1 * IPEntropy m + (1 - 0.1) * AverageIPEntropy (baseline d)
   \<and> AvgConnectionDuration (baseline (UpdateBaseline d m))
     = 0.1 * AvgConnDuration m + (1 - 0.1) * AvgConnectionDuration (baseline d)
   \<and> (AverageRequestRate (baseline d) = 100 \<and> TotalRequests m = 200
        \<longrightarrow> AverageRequestRate (baseline (UpdateBaseline d m)) = 110)
   \<and> (\<forall>n. AverageRequestRate (baseline (UpdateBaseline_times n d m)) - real_of_int (TotalRequests m)
          = 0.9 ^ n * (AverageRequestRate (baseline d) - real_of_int (TotalRequests m)))
   \<and> (\<forall>n. AverageIPEntropy (baseline (UpdateBaseline_times n d m)) - IPEntropy m
          = 0.9 ^ n * (AverageIPEntropy (baseline d) - IPEntropy m))
   \<and> (\<forall>n. AvgConnectionDuration (baseline (UpdateBaseline_times n d m)) - AvgConnDuration m
          = 0.9 ^ n * (AvgConnectionDuration (baseline d) - AvgConnDuration m))
   \<and> (\<lambda>n. AverageRequestRate (baseline (UpdateBaseline_times n d m)))
        \<longlonglongrightarrow> real_of_int (TotalRequests m)
   \<and> (\<lambda>n. AverageIPEntropy (baseline (UpdateBaseline_times n d m))) \<longlonglongrightarrow> IPEntropy m
   \<and> (\<lambda>n. AvgConnectionDuration (baseline (UpdateBaseline_times n d m)))
        \<longlonglongrightarrow> AvgConnDuration m"
proof -
  let ?rate = "\<lambda>n. AverageRequestRate (baseline (UpdateBaseline_times n d m))"
  let ?entropy = "\<lambda>n. AverageIPEntropy (baseline (UpdateBaseline_times n d m))"
  let ?duration = "\<lambda>n. AvgConnectionDuration (baseline (UpdateBaseline_times n d m))"
  have r: "?rate (Suc n) = 0.1 * real_of_int (TotalRequests m) + (1 - 0.1) * ?rate n" for n
    by (simp add: UpdateBaseline_fields)
  have e: "?entropy (Suc n) = 0.1 * IPEntropy m + (1 - 0.1) * ?entropy n" for n
    by (simp add: UpdateBaseline_fields)
  have c: "?duration (Suc n) = 0.1 * AvgConnDuration m + (1 - 0.1) * ?duration n" for n
    by (simp add: UpdateBaseline_fields)
  have step: "AverageRequestRate (baseline (UpdateBaseline d m))
       = 0.1 * real_of_int (TotalRequests m) + (1 - 0.1) * AverageRequestRate (baseline d)"
    "AverageUniqueIPs (baseline (UpdateBaseline d m))
       = int_of_float64 (0.1 * real_of_int (UniqueIPs m)
                         + (1 - 0.1) * real_of_int (AverageUniqueIPs (baseline d)))"
    "AverageIPEntropy (baseline (UpdateBaseline d m))
       = 0.1 * IPEntropy m + (1 - 0.1) * AverageIPEntropy (baseline d)"
    "AvgConnectionDuration (baseline (UpdateBaseline d m))
       = 0.1 * AvgConnDuration m + (1 - 0.1) * AvgConnectionDuration (baseline d)"
    by (simp_all add: UpdateBaseline_fields)
  have example: "AverageRequestRate (baseline d) = 100 \<and> TotalRequests m = 200
        \<longrightarrow> AverageRequestRate (baseline (UpdateBaseline d m)) = 110"
    by (simp add: UpdateBaseline_fields)
  have closed: "\<forall>n. ?rate n - real_of_int (TotalRequests m)
          = 0.9 ^ n * (AverageRequestRate (baseline d) - real_of_int (TotalRequests m))"
    "\<forall>n. ?entropy n - IPEntropy m = 0.9 ^ n * (AverageIPEntropy (baseline d) - IPEntropy m)"
    "\<forall>n. ?duration n - AvgConnDuration m
          = 0.9 ^ n * (AvgConnectionDuration (baseline d) - AvgConnDuration m)"
    using ema_closed_form [of ?rate "real_of_int (TotalRequests m)", OF r]
      ema_closed_form [of ?entropy "IPEntropy m", OF e]
      ema_closed_form [of ?duration "AvgConnDuration m", OF c]
    by simp_all
  have limits: "?rate \<longlonglongrightarrow> real_of_int (TotalRequests m)" "?entropy \<longlonglongrightarrow> IPEntropy m"
    "?duration \<longlonglongrightarrow> AvgConnDuration m"
    using ema_limit [of ?rate "real_of_int (TotalRequests m)", OF r]
      ema_limit [of ?entropy "IPEntropy m", OF e]
      ema_limit [of ?duration "AvgConnDuration m", OF c]
    by simp_all
  show ?thesis
    by (intro conjI) (fact step example closed limits)+
qed

text \<open>The default detector and the window of 200 records from two addresses: the request
  rate moves from 100 to 110 and then to 119, the unique-source average from 50 to 45.\<close>

theorem UpdateBaseline_ema_witness:
  "AverageRequestRate (baseline NewDetector) = 100 \<and> TotalRequests window200 = 200
   \<and> AverageRequestRate (baseline (UpdateBaseline NewDetector window200)) = 110
   \<and> AverageRequestRate (baseline (UpdateBaseline_times 2 NewDetector window200)) = 119
   \<and> AverageUniqueIPs (baseline (UpdateBaseline NewDetector window200)) = 45"
proof -
  have two: "UpdateBaseline_times 2 d m = UpdateBaseline_times (Suc (Suc 0)) d m" for d m
    by (simp add: numeral_2_eq_2)
  have "AverageRequestRate (baseline (UpdateBaseline_times 2 NewDetector window200)) - 200
          = 0.9 ^ 2 * (100 - 200)"
    using UpdateBaseline_ema [of NewDetector window200]
    by (simp add: NewDetector_def window200_def)
  then have "AverageRequestRate (baseline (UpdateBaseline_times 2 NewDetector window200)) = 119"
    by (simp add: power2_eq_square)
  then show ?thesis
    using UpdateBaseline_ema [of NewDetector window200]
    by (simp add: NewDetector_def window200_def int_of_float64_def)
qed

text \<open>Claim C7 as stated fails for the unique-source average: from 50, a window with 2
  unique sources gives \<open>0.1 \<times> 2 + 0.9 \<times> 50 = 45.2\<close>, and the field holds 45.\<close>

theorem UpdateBaseline_unique_ips_counterexample:
  "real_of_int (AverageUniqueIPs (baseline (UpdateBaseline NewDetector window200))) = 45
   \<and> 0.1 * real_of_int (UniqueIPs window200)
        + (1 - 0.1) * real_of_int (AverageUniqueIPs (baseline NewDetector)) = 45.2
   \<and> real_of_int (AverageUniqueIPs (baseline (UpdateBaseline NewDetector window200)))
       \<noteq> 0.1 * real_of_int (UniqueIPs window200)
        + (1 - 0.1) * real_of_int (AverageUniqueIPs (baseline NewDetector))"
  by (simp add: UpdateBaseline_fields NewDetector_def window200_def int_of_float64_def)

section \<open>Properties of the analysis entry point\<close>

text \<open>
  Claim C9. For an empty batch the entry point returns the empty list of findings,
  whatever the detector state and the runtime's choices are: the first statement of
  \<^verbatim>\<open>AnalyzeTraffic\<close> returns before the metrics are computed or a detector is called.
\<close>

theorem AnalyzeTraffic_empty: "AnalyzeTraffic env d [] = []"
  by (simp add: AnalyzeTraffic_def)

lemma detectSYNFlood_Type: "detectSYNFlood nd d rs m = Some a \<Longrightarrow> Type a = ''SYN_FLOOD''"
  by (auto simp: detectSYNFlood_def Let_def split: if_splits)

lemma detectHTTPFlood_Type: "detectHTTPFlood nd d rs m = Some a \<Longrightarrow> Type a = ''HTTP_FLOOD''"
  by (auto simp: detectHTTPFlood_def Let_def split: if_splits prod.splits)

lemma detectSlowloris_Type: "detectSlowloris nd d rs m = Some a \<Longrightarrow> Type a = ''SLOWLORIS''"
  by (auto simp: detectSlowloris_def Let_def split: if_splits prod.splits)

lemma detectUDPFlood_Type: "detectUDPFlood nd d rs m = Some a \<Longrightarrow> Type a = ''UDP_FLOOD''"
  by (auto simp: detectUDPFlood_def Let_def split: if_splits prod.splits)

lemma detectRateAnomaly_Type:
  "detectRateAnomaly nd d m = Some a \<Longrightarrow> Type a = ''RATE_ANOMALY''"
  by (auto simp: detectRateAnomaly_def Let_def split: if_splits prod.splits)

lemma opt_types:
  "(\<And>a. x = Some a \<Longrightarrow> Type a = t) \<Longrightarrow>
   map Type (append_found xs x) = map Type xs @ (if x = None then [] else [t])"
  by (cases x) (auto simp: append_found_def)

text \<open>
  Claim C10. For every batch, the type tags of the findings that \<^verbatim>\<open>AnalyzeTraffic\<close>
  returns form a subsequence of SYN_FLOOD, HTTP_FLOOD, SLOWLORIS, UDP_FLOOD,
  RATE_ANOMALY: the findings come in the order of the detector calls, no tag occurs
  twice, and there are at most five of them.
\<close>

theorem AnalyzeTraffic_order:
  "subseq (map Type (AnalyzeTraffic env d requests)) detector_sequence
   \<and> distinct (map Type (AnalyzeTraffic env d requests))
   \<and> length (AnalyzeTraffic env d requests) \<le> 5"
proof (cases "length requests = 0")
  case True
  then show ?thesis by (simp add: AnalyzeTraffic_def)
next
  case False
  let ?m = "calculateMetrics requests"
  have "map Type (AnalyzeTraffic env d requests) =
      (if detectSYNFlood (syn_nd env) d requests ?m = None then [] else [''SYN_FLOOD''])
    @ (if detectHTTPFlood (http_nd env) d requests ?m = None then [] else [''HTTP_FLOOD''])
    @ (if detectSlowloris (slow_nd env) d requests ?m = None then [] else [''SLOWLORIS''])
    @ (if detectUDPFlood (udp_nd env) d requests ?m = None then [] else [''UDP_FLOOD''])
    @ (if detectRateAnomaly (rate_nd env) d ?m = None then [] else [''RATE_ANOMALY''])"
    using False
    by (simp add: AnalyzeTraffic_def Let_def opt_types [OF detectSYNFlood_Type]
        opt_types [OF detectHTTPFlood_Type] opt_types [OF detectSlowloris_Type]
        opt_types [OF detectUDPFlood_Type] opt_types [OF detectRateAnomaly_Type])
  then have *: "map Type (AnalyzeTraffic env d requests) \<in> set (subseqs detector_sequence)"
    by (simp add: detector_sequence_def Let_def)
  have "length (map Type (AnalyzeTraffic env d requests)) \<le> 5"
    using * by (auto simp: detector_sequence_def Let_def)
  moreover have "distinct (map Type (AnalyzeTraffic env d requests))"
    using * by (auto simp: detector_sequence_def Let_def)
  moreover have "subseq (map Type (AnalyzeTraffic env d requests)) detector_sequence"
    using * by (simp only: set_subseqs_eq mem_Collect_eq)
  ultimately show ?thesis by simp
qed

subsection \<open>Running the analysis twice\<close>

text \<open>\<^verbatim>\<open>AnalyzeTraffic\<close> on a non-empty batch is the five detector calls on the metrics of
  the batch; in the model these carry the exact entropies.\<close>

lemma AnalyzeTraffic_calls:
  "AnalyzeTraffic env d rs =
     (if length rs = 0 then [] else detector_calls env d rs (calculateMetrics rs))"
  by (simp add: AnalyzeTraffic_def detector_calls_def Let_def)

lemma snapshot_exact:
  "snapshot rs (IPEntropy (calculateMetrics rs)) (PathEntropy (calculateMetrics rs))
     = calculateMetrics rs"
  by (simp add: snapshot_def)

lemma snapshot_fields:
  "SYNPacketCount (snapshot rs e p) = SYNPacketCount (calculateMetrics rs)"
  "TotalRequests (snapshot rs e p) = TotalRequests (calculateMetrics rs)"
  "IPCounts (snapshot rs e p) = IPCounts (calculateMetrics rs)"
  "ProtocolCounts (snapshot rs e p) = ProtocolCounts (calculateMetrics rs)"
  "IPEntropy (snapshot rs e p) = e"
  "PathEntropy (snapshot rs e p) = p"
  by (simp_all add: snapshot_def)

text \<open>The SYN-flood, Slowloris and UDP-flood detectors do not read the entropies.\<close>

lemma detectSYNFlood_same:
  assumes "fair_order nd" "fair_order nd'"
  shows "rel_option (same_finding rs) (detectSYNFlood nd d rs (snapshot rs e p))
           (detectSYNFlood nd' d rs (snapshot rs e' p'))"
  by (simp add: detectSYNFlood_def Let_def same_finding_def stable_part_def
      range_keys_mset range_keys_length snapshot_fields assms)

lemma detectSlowloris_same:
  assumes "fair_order nd" "fair_order nd'"
  shows "rel_option (same_finding rs) (detectSlowloris nd d rs m) (detectSlowloris nd' d rs m')"
  by (simp add: detectSlowloris_def Let_def same_finding_def stable_part_def
      range_keys_mset range_keys_length assms split: prod.splits)

lemma detectUDPFlood_same:
  assumes "fair_order nd" "fair_order nd'"
  shows "rel_option (same_finding rs) (detectUDPFlood nd d rs (snapshot rs e p))
           (detectUDPFlood nd' d rs (snapshot rs e' p'))"
  by (simp add: detectUDPFlood_def Let_def same_finding_def stable_part_def getTopIPs_length
      fold_filter_tally getTopIPs_tally [unfolded tagged_def] tagged_def snapshot_fields assms)

text \<open>The HTTP-flood detector reads the path entropy, the rate-anomaly detector the source
  entropy.\<close>

lemma detectHTTPFlood_same:
  assumes "fair_order nd" "fair_order nd'"
  shows "rel_option (same_finding rs) (detectHTTPFlood nd d rs (snapshot rs e p))
           (detectHTTPFlood nd' d rs (snapshot rs e' p))"
  by (simp add: detectHTTPFlood_char same_finding_def stable_part_def getTopIPs_length
      getTopIPs_tally snapshot_fields assms)

lemma detectRateAnomaly_same:
  assumes "fair_order nd" "fair_order nd'"
  shows "rel_option (same_finding rs) (detectRateAnomaly nd d (snapshot rs e p))
           (detectRateAnomaly nd' d (snapshot rs e p'))"
  by (simp add: detectRateAnomaly_def Let_def same_finding_def stable_part_def getTopIPs_length
      calculateMetrics_fields getTopIPs_tally snapshot_fields assms)

lemma append_found_same:
  "list_all2 R xs ys \<Longrightarrow> rel_option R x y \<Longrightarrow>
   list_all2 R (append_found xs x) (append_found ys y)"
  by (cases x; cases y) (simp_all add: append_found_def list_all2_appendI)

text \<open>
  With the default detector and a window of 192 records, a source entropy of exactly 3
  gives no rate-anomaly finding and a source entropy one unit in the last place below 3
  gives a CRITICAL one: the last bits of the entropy sum decide.
\<close>

lemma rate_anomaly_at_entropy_floor:
  assumes "length rs = 192"
  shows "detectRateAnomaly nd NewDetector (snapshot rs 3 p) = None"
    and "\<exists>a. detectRateAnomaly nd NewDetector (snapshot rs (3 - 1 / 2 ^ 51) p) = Some a
           \<and> Severity a = ''CRITICAL''"
  using assms
  by (simp_all add: detectRateAnomaly_def Let_def snapshot_fields calculateMetrics_fields
      NewDetector_def getSeverity_def)

text \<open>
  Claim C2, amended. Take two runs of the analysis on the same batch and the same
  detector state, in each of which every \<^verbatim>\<open>range\<close> visits every key of its map once, and
  let each run's metrics carry the source entropy and path entropy that run computed.
  The SYN_FLOOD, SLOWLORIS and UDP_FLOOD detectors then either emit in both runs or in
  neither, and so does the HTTP_FLOOD detector when the two path entropies are equal and
  the RATE_ANOMALY detector when the two source entropies are equal. Two findings of the
  same detector agree on every field but the identifier, the start time and the source
  list; the two source lists have the same length; for SYN_FLOOD and SLOWLORIS they hold
  the same addresses, and for the three top-N lists the record counts of the listed
  addresses agree position by position. When both entropies are equal in the two runs,
  the two lists of findings agree in this way as a whole. The identifiers, the start
  times, the order of the source addresses (with it, among addresses of equal count,
  which of them are listed) and the last bits of the two entropies are the runtime's.
\<close>

theorem reruns_agree:
  assumes "fair_env env" "fair_env env'"
  shows
    "rel_option (same_finding rs) (detectSYNFlood (syn_nd env) d rs (snapshot rs e p))
       (detectSYNFlood (syn_nd env') d rs (snapshot rs e' p'))
     \<and> rel_option (same_finding rs) (detectSlowloris (slow_nd env) d rs (snapshot rs e p))
         (detectSlowloris (slow_nd env') d rs (snapshot rs e' p'))
     \<and> rel_option (same_finding rs) (detectUDPFlood (udp_nd env) d rs (snapshot rs e p))
         (detectUDPFlood (udp_nd env') d rs (snapshot rs e' p'))
     \<and> (p = p' \<longrightarrow>
          rel_option (same_finding rs) (detectHTTPFlood (http_nd env) d rs (snapshot rs e p))
            (detectHTTPFlood (http_nd env') d rs (snapshot rs e' p')))
     \<and> (e = e' \<longrightarrow>
          rel_option (same_finding rs) (detectRateAnomaly (rate_nd env) d (snapshot rs e p))
            (detectRateAnomaly (rate_nd env') d (snapshot rs e' p')))
     \<and> (e = e' \<and> p = p' \<longrightarrow>
          list_all2 (same_finding rs) (detector_calls env d rs (snapshot rs e p))
            (detector_calls env' d rs (snapshot rs e' p')))"
proof -
  have f: "fair_order (syn_nd env)" "fair_order (http_nd env)" "fair_order (slow_nd env)"
    "fair_order (udp_nd env)" "fair_order (rate_nd env)"
    "fair_order (syn_nd env')" "fair_order (http_nd env')" "fair_order (slow_nd env')"
    "fair_order (udp_nd env')" "fair_order (rate_nd env')"
    using assms by (simp_all add: fair_env_def)
  have syn: "rel_option (same_finding rs) (detectSYNFlood (syn_nd env) d rs (snapshot rs e p))
       (detectSYNFlood (syn_nd env') d rs (snapshot rs e' p'))"
    by (intro detectSYNFlood_same f)
  have slow: "rel_option (same_finding rs) (detectSlowloris (slow_nd env) d rs (snapshot rs e p))
         (detectSlowloris (slow_nd env') d rs (snapshot rs e' p'))"
    by (intro detectSlowloris_same f)
  have udp: "rel_option (same_finding rs) (detectUDPFlood (udp_nd env) d rs (snapshot rs e p))
         (detectUDPFlood (udp_nd env') d rs (snapshot rs e' p'))"
    by (intro detectUDPFlood_same f)
  have http: "p = p' \<longrightarrow>
          rel_option (same_finding rs) (detectHTTPFlood (http_nd env) d rs (snapshot rs e p))
            (detectHTTPFlood (http_nd env') d rs (snapshot rs e' p'))"
    by (intro impI, elim subst) (intro detectHTTPFlood_same f)
  have rate: "e = e' \<longrightarrow>
          rel_option (same_finding rs) (detectRateAnomaly (rate_nd env) d (snapshot rs e p))
            (detectRateAnomaly (rate_nd env') d (snapshot rs e' p'))"
    by (intro impI, elim subst) (intro detectRateAnomaly_same f)
  have whole: "e = e' \<and> p = p' \<longrightarrow>
          list_all2 (same_finding rs) (detector_calls env d rs (snapshot rs e p))
            (detector_calls env' d rs (snapshot rs e' p'))"
  proof
    assume eq: "e = e' \<and> p = p'"
    with http rate have
      "rel_option (same_finding rs) (detectHTTPFlood (http_nd env) d rs (snapshot rs e p))
            (detectHTTPFlood (http_nd env') d rs (snapshot rs e' p'))"
      "rel_option (same_finding rs) (detectRateAnomaly (rate_nd env) d (snapshot rs e p))
            (detectRateAnomaly (rate_nd env') d (snapshot rs e' p'))"
      by simp_all
    with syn slow udp show "list_all2 (same_finding rs) (detector_calls env d rs (snapshot rs e p))
            (detector_calls env' d rs (snapshot rs e' p'))"
      unfolding detector_calls_def Let_def by (intro append_found_same) simp_all
  qed
  show ?thesis
    by (intro conjI) (fact syn slow udp http rate whole)+
qed

text \<open>The two runs of the small batch, both with the entropies 2 and 0 of its four
  addresses and its one path: two findings each, which agree.\<close>

theorem reruns_agree_witness:
  "fair_env env_a \<and> fair_env env_b
   \<and> snapshot lab_batch 2 0 = calculateMetrics lab_batch
   \<and> length (detector_calls env_a lab_detector lab_batch (snapshot lab_batch 2 0)) = 2
   \<and> list_all2 (same_finding lab_batch)
        (detector_calls env_a lab_detector lab_batch (snapshot lab_batch 2 0))
        (detector_calls env_b lab_detector lab_batch (snapshot lab_batch 2 0))"
proof -
  have f: "fair_env env_a" "fair_env env_b"
    by (simp_all add: fair_env_def fair_order_def env_a_def env_b_def runtime_a_def runtime_b_def)
  have "log 2 (2 ^ 2) = (2 :: real)" by (subst log_pow_cancel) simp_all
  then have "log 2 4 = (2 :: real)" by simp
  then have "IPEntropy (calculateMetrics lab_batch) = 2" "PathEntropy (calculateMetrics lab_batch) = 0"
    by (simp_all add: lab_batch_def request_def calculateMetrics_fields
      incr_def lookup0_def calculateEntropy_def wrap64_def log_divide)
  then have s: "snapshot lab_batch 2 0 = calculateMetrics lab_batch"
    using snapshot_exact [of lab_batch] by simp
  have "detector_calls env_a lab_detector lab_batch (snapshot lab_batch 2 0)
          = AnalyzeTraffic env_a lab_detector lab_batch"
  proof -
    have "length lab_batch \<noteq> 0" by (simp add: lab_batch_def)
    then show ?thesis by (simp only: s AnalyzeTraffic_calls if_False)
  qed
  then have len: "length (detector_calls env_a lab_detector lab_batch (snapshot lab_batch 2 0)) = 2"
    by (simp add: run_a)
  from reruns_agree [OF f, where rs = lab_batch and d = lab_detector
      and e = 2 and e' = 2 and p = 0 and p' = 0]
  have "list_all2 (same_finding lab_batch)
        (detector_calls env_a lab_detector lab_batch (snapshot lab_batch 2 0))
        (detector_calls env_b lab_detector lab_batch (snapshot lab_batch 2 0))"
    by simp
  with f s len show ?thesis by simp
qed

text \<open>Claim C2 as stated fails: the two runs of the small batch differ in the identifiers,
  in the start times and in the order of the source addresses of both findings, one of
  which is a top-N list.\<close>

theorem AnalyzeTraffic_reruns_counterexample:
  "map ID (AnalyzeTraffic env_a lab_detector lab_batch)
     \<noteq> map ID (AnalyzeTraffic env_b lab_detector lab_batch)
   \<and> map StartTime (AnalyzeTraffic env_a lab_detector lab_batch)
       \<noteq> map StartTime (AnalyzeTraffic env_b lab_detector lab_batch)
   \<and> map SourceIPs (AnalyzeTraffic env_a lab_detector lab_batch)
       = [[''198.51.100.1'', ''198.51.100.2''], [''203.0.113.7'', ''203.0.113.8'']]
   \<and> map SourceIPs (AnalyzeTraffic env_b lab_detector lab_batch)
       = [[''198.51.100.2'', ''198.51.100.1''], [''203.0.113.8'', ''203.0.113.7'']]
   \<and> AnalyzeTraffic env_a lab_detector lab_batch \<noteq> AnalyzeTraffic env_b lab_detector lab_batch"
  by (simp add: run_a run_b)

end
